(* ===== verification/Prelude.thy ===== *)
theory Prelude
  imports Main "HOL-Library.Word" "HOL-Library.Sublist"
begin

text \<open>
  Shared vocabulary of the development: the machine types of the Go program, byte-string
  literals, the big- and little-endian integers of Go's \<open>encoding/binary\<close>, and the
  generic lemmas and interfaces every component uses.

  A Go \<open>string\<close> and a \<open>[]byte\<close> are both lists of 8-bit words; a rune is a Unicode
  code point, a natural number. Lengths (Go's \<open>int\<close>) are natural numbers: the program
  compares them, it never lets them wrap. The fixed-width integers of the protocols are
  words of their width.
\<close>

section \<open>Machine types\<close>

type_synonym byte = "8 word"
type_synonym u16 = "16 word"
type_synonym u32 = "32 word"
type_synonym u64 = "64 word"
type_synonym gostr = "byte list"
type_synonym rune = nat

text \<open>The facts that unfold codecs, the facts that evaluate text, and the frame rules.\<close>

named_theorems codec_simps
named_theorems text_simps
named_theorems frame_rules

text \<open>The window messages more than one component uses.\<close>

definition WM_CLOSE :: u32 where "WM_CLOSE = 0x10"

text \<open>A Go string literal with ASCII characters only.\<close>

definition lit :: "string \<Rightarrow> gostr" where
  "lit s = map of_char s"

lemma length_lit [simp]: "length (lit s) = length s"
  by (simp add: lit_def)

lemma lit_Nil [simp]: "lit [] = []"
  by (simp add: lit_def)

text \<open>A list splits in one way around the last occurrence of an element, and the first.\<close>

lemma first_sep_unique:
  assumes "p @ c # xs = q @ c # ys" "c \<notin> set p" "c \<notin> set q"
  shows "p = q \<and> xs = ys"
  using assms
proof (induction p arbitrary: q)
  case Nil
  then show ?case by (cases q) auto
next
  case (Cons a p)
  then show ?case by (cases q) auto
qed

lemma last_sep_unique:
  assumes "xs @ c # p = ys @ c # q" "c \<notin> set p" "c \<notin> set q"
  shows "xs = ys \<and> p = q"
proof -
  have "rev (xs @ c # p) = rev (ys @ c # q)" using assms(1) by (rule arg_cong)
  then have "rev p @ c # rev xs = rev q @ c # rev ys"
    unfolding rev_append rev.simps append_assoc append_Cons append_Nil .
  from first_sep_unique [OF this] assms(2,3) show ?thesis by simp
qed

section \<open>Conversions to fixed-width integers\<close>

text \<open>
  Go's conversions \<open>byte(n)\<close>, \<open>uint16(n)\<close>, \<open>uint32(n)\<close> keep the low bits.
\<close>

definition byte_of :: "nat \<Rightarrow> byte" where
  "byte_of n = of_nat n"

definition u16_of :: "nat \<Rightarrow> u16" where
  "u16_of n = of_nat n"

definition u32_of :: "nat \<Rightarrow> u32" where
  "u32_of n = of_nat n"

lemma unat_byte_less [simp]: "unat (b :: byte) < 256"
  using unsigned_less [of b] by simp

lemma unat_u32_less [simp]: "unat (w :: u32) < 4294967296"
  using unsigned_less [of w] by simp

lemma unat_u16_less [simp]: "unat (w :: u16) < 65536"
  using unsigned_less [of w] by simp

lemma unat_byte_of [simp]: "unat (byte_of n) = n mod 256"
  by (simp add: byte_of_def unat_of_nat)

lemma unat_u16_of [simp]: "unat (u16_of n) = n mod 65536"
  by (simp add: u16_of_def unat_of_nat)

lemma unat_u32_of [simp]: "unat (u32_of n) = n mod 4294967296"
  by (simp add: u32_of_def unat_of_nat)

lemma byte_of_unat [simp]: "byte_of (unat b) = b"
  by (simp add: byte_of_def)

lemma u16_of_unat [simp]: "u16_of (unat w) = w"
  by (simp add: u16_of_def)

lemma u32_of_unat [simp]: "u32_of (unat w) = w"
  by (simp add: u32_of_def)

lemma byte_of_numeral [simp]:
  "byte_of 0 = 0" "byte_of 1 = 1" "byte_of (Suc 0) = 1" "byte_of (numeral k) = numeral k"
  by (simp_all add: byte_of_def)

lemma u16_of_numeral [simp]:
  "u16_of 0 = 0" "u16_of 1 = 1" "u16_of (Suc 0) = 1" "u16_of (numeral k) = numeral k"
  by (simp_all add: u16_of_def)

lemma u32_of_numeral [simp]:
  "u32_of 0 = 0" "u32_of 1 = 1" "u32_of (Suc 0) = 1" "u32_of (numeral k) = numeral k"
  by (simp_all add: u32_of_def)

lemma u32_of_eq_iff: "u32_of m = w \<longleftrightarrow> m mod 4294967296 = unat w"
  by (metis unat_u32_of u32_of_unat u32_of_def unsigned_word_eqI)

section \<open>Fixed-width integers in byte strings\<close>

text \<open>
  \<open>binary.BigEndian.Uint32\<close>, \<open>PutUint32\<close>, \<open>binary.LittleEndian.Uint32\<close> and
  \<open>binary.BigEndian.Uint16\<close>. The readers panic in Go on a shorter slice; every caller
  in the program checks the length first, and the models do it in the same place.
\<close>

fun be32 :: "byte list \<Rightarrow> u32" where
  "be32 (b0 # b1 # b2 # b3 # _) =
     u32_of (unat b0 * 16777216 + unat b1 * 65536 + unat b2 * 256 + unat b3)"
| "be32 _ = 0"

fun le32 :: "byte list \<Rightarrow> u32" where
  "le32 (b0 # b1 # b2 # b3 # _) = be32 [b3, b2, b1, b0]"
| "le32 _ = 0"

fun be16 :: "byte list \<Rightarrow> u16" where
  "be16 (b0 # b1 # _) = u16_of (unat b0 * 256 + unat b1)"
| "be16 _ = 0"

definition put_be32 :: "u32 \<Rightarrow> byte list" where
  "put_be32 w = [byte_of (unat w div 16777216), byte_of (unat w div 65536),
                 byte_of (unat w div 256), byte_of (unat w)]"

definition put_le32 :: "u32 \<Rightarrow> byte list" where
  "put_le32 w = rev (put_be32 w)"

definition put_be16 :: "u16 \<Rightarrow> byte list" where
  "put_be16 w = [byte_of (unat w div 256), byte_of (unat w)]"

lemma unat_be32 [simp]:
  "unat (be32 (b0 # b1 # b2 # b3 # bs)) =
     unat b0 * 16777216 + unat b1 * 65536 + unat b2 * 256 + unat b3"
proof -
  have "unat b0 < 256" "unat b1 < 256" "unat b2 < 256" "unat b3 < 256"
    by simp_all
  then have "unat b0 * 16777216 + unat b1 * 65536 + unat b2 * 256 + unat b3 < 4294967296"
    by linarith
  then show ?thesis by simp
qed

lemma be32_append: "length xs \<ge> 4 \<Longrightarrow> be32 (xs @ ys) = be32 xs"
  by (cases xs rule: be32.cases) auto

lemma be32_take [simp]: "be32 (take 4 xs) = be32 xs"
  by (cases xs rule: be32.cases) auto

lemma length_put_be32 [simp]: "length (put_be32 w) = 4"
  by (simp add: put_be32_def)

lemma put_be32_neq_Nil [simp]: "put_be32 w \<noteq> []"
  by (simp add: put_be32_def)

lemma div_chain:
  fixes n :: nat
  shows "n div 65536 = n div 256 div 256" "n div 16777216 = n div 256 div 256 div 256"
  by (simp_all add: div_mult2_eq [symmetric])

lemma base256_digits:
  fixes n :: nat
  shows "(n div 16777216) * 16777216 + (n div 65536 mod 256) * 65536
         + (n div 256 mod 256) * 256 + n mod 256 = n"
  using div_mult_mod_eq [of n 256] div_mult_mod_eq [of "n div 256" 256]
    div_mult_mod_eq [of "n div 256 div 256" 256]
  unfolding div_chain by linarith

lemma be32_put_be32 [simp]: "be32 (put_be32 w @ bs) = w"
proof -
  let ?n = "unat w"
  have small: "?n div 16777216 < 256"
    using unat_u32_less [of w] by (simp add: less_mult_imp_div_less)
  have "unat (be32 (put_be32 w @ bs)) = ?n"
    unfolding put_be32_def append_Cons append_Nil unat_be32 unat_byte_of
    using base256_digits [of ?n] small by simp
  then show ?thesis by (simp add: word_unat_eq_iff)
qed

lemma be32_put_be32_Nil [simp]: "be32 (put_be32 w) = w"
  using be32_put_be32 [of w "[]"] by simp

lemma byte_digit:
  assumes "n = a * 256 + unat (b :: byte)"
  shows "byte_of n = b" and "n div 256 = a"
  using assms by (simp_all add: word_unat_eq_iff)

lemma put_be32_be32: "length bs = 4 \<Longrightarrow> put_be32 (be32 bs) = bs"
proof -
  assume "length bs = 4"
  then obtain b0 b1 b2 b3 where bs: "bs = [b0, b1, b2, b3]"
    by (auto simp: numeral_eq_Suc length_Suc_conv)
  let ?n = "unat (be32 bs)"
  have n: "?n = ((unat b0 * 256 + unat b1) * 256 + unat b2) * 256 + unat b3"
    unfolding bs unat_be32 by simp
  have d1: "?n div 256 = (unat b0 * 256 + unat b1) * 256 + unat b2"
    using byte_digit(2) [OF n] .
  have d2: "?n div 65536 = unat b0 * 256 + unat b1"
    using byte_digit(2) [OF d1] by (simp add: div_chain)
  have d3: "?n div 16777216 = unat b0"
    using byte_digit(2) [OF d2] by (simp add: div_chain)
  show ?thesis
    unfolding put_be32_def d3 byte_digit(1) [OF n] byte_digit(1) [OF d1] byte_digit(1) [OF d2]
    by (simp add: bs)
qed

lemma le32_put_le32 [simp]: "le32 (put_le32 w @ bs) = w"
proof -
  have "le32 (put_le32 w @ bs) = be32 (put_be32 w)"
    by (simp add: put_le32_def put_be32_def del: be32.simps)
  then show ?thesis by simp
qed

lemma length_put_le32 [simp]: "length (put_le32 w) = 4"
  by (simp add: put_le32_def)

lemma length_put_be16 [simp]: "length (put_be16 w) = 2"
  by (simp add: put_be16_def)

lemma be16_put_be16 [simp]: "be16 (put_be16 w @ bs) = w"
proof -
  have "unat w div 256 < 256"
    using unat_u16_less [of w] by (simp add: less_mult_imp_div_less)
  then have "unat (be16 (put_be16 w @ bs)) = unat w"
    by (simp add: put_be16_def)
  then show ?thesis by (simp add: word_unat_eq_iff)
qed

end
