(* ===== verification/Codec.thy ===== *)
theory Codec
  imports Prelude
begin

text \<open>
  The interface of a self-delimiting encoding: an encoder and a decoder that returns the
  value and the bytes after it. Both messages of the agent protocol and the pieces they are
  made of (32-bit integers, SSH strings, entries of a key list) are encodings of this kind,
  so what a decoder does on an encoding, on a truncation and on a sequence is proved here
  once and instantiated by the theories that define the codecs.
\<close>

section \<open>Decoding a sequence and a pair\<close>

text \<open>The decoder of \<open>n\<close> values in a row, and of one value after another.\<close>

primrec dec_many ::
  "(byte list \<Rightarrow> ('a \<times> byte list) option) \<Rightarrow> nat \<Rightarrow> byte list \<Rightarrow> ('a list \<times> byte list) option" where
  "dec_many dec 0 bs = Some ([], bs)"
| "dec_many dec (Suc n) bs =
     (case dec bs of
        None \<Rightarrow> None
      | Some (x, bs') \<Rightarrow>
          (case dec_many dec n bs' of
             None \<Rightarrow> None
           | Some (xs, rest) \<Rightarrow> Some (x # xs, rest)))"

definition dec_pair ::
  "(byte list \<Rightarrow> ('a \<times> byte list) option) \<Rightarrow> (byte list \<Rightarrow> ('b \<times> byte list) option)
   \<Rightarrow> byte list \<Rightarrow> (('a \<times> 'b) \<times> byte list) option" where
  "dec_pair deca decb bs =
     (case deca bs of
        None \<Rightarrow> None
      | Some (x, bs') \<Rightarrow>
          (case decb bs' of
             None \<Rightarrow> None
           | Some (y, rest) \<Rightarrow> Some ((x, y), rest)))"

section \<open>The interface\<close>

locale prefix_codec =
  fixes enc :: "'a \<Rightarrow> byte list"
    and dec :: "byte list \<Rightarrow> ('a \<times> byte list) option"
    and ok :: "'a \<Rightarrow> bool"
  assumes dec_enc: "ok x \<Longrightarrow> dec (enc x @ rest) = Some (x, rest)"
    and dec_sound: "dec bs = Some (x, rest) \<Longrightarrow> ok x \<and> bs = enc x @ rest"
begin

lemma dec_iff: "dec bs = Some (x, rest) \<longleftrightarrow> ok x \<and> bs = enc x @ rest"
proof
  show "dec bs = Some (x, rest) \<Longrightarrow> ok x \<and> bs = enc x @ rest" by (rule dec_sound)
  show "ok x \<and> bs = enc x @ rest \<Longrightarrow> dec bs = Some (x, rest)"
    by (elim conjE) (simp only: dec_enc)
qed

lemma dec_exact: "ok x \<Longrightarrow> dec (enc x) = Some (x, [])"
  using dec_enc [of x "[]"] by simp

lemma enc_prefix_free:
  assumes "ok x" and "ok y" and "enc x @ xs = enc y @ ys"
  shows "x = y" and "xs = ys"
proof -
  have "Some (x, xs) = Some (y, ys)"
    using dec_enc [OF assms(1), of xs] dec_enc [OF assms(2), of ys] unfolding assms(3) by simp
  then show "x = y" and "xs = ys" by simp_all
qed

lemma enc_inject: "ok x \<Longrightarrow> ok y \<Longrightarrow> enc x = enc y \<longleftrightarrow> x = y"
  using enc_prefix_free(1) [of x y "[]" "[]"] by auto

text \<open>No proper prefix of an encoding decodes.\<close>

lemma dec_truncated:
  assumes "ok x" and "strict_prefix bs (enc x)"
  shows "dec bs = None"
proof (rule ccontr)
  assume "dec bs \<noteq> None"
  then obtain y rest where "dec bs = Some (y, rest)" by auto
  then have y: "ok y" "bs = enc y @ rest" by (simp_all add: dec_iff)
  from assms(2) obtain t where "enc x = bs @ t" "t \<noteq> []"
    by (auto elim: strict_prefixE')
  with y have "enc x @ [] = enc y @ (rest @ t)" by simp
  from enc_prefix_free(2) [OF assms(1) y(1) this] \<open>t \<noteq> []\<close> show False by simp
qed

lemma dec_many_iff:
  "dec_many dec n bs = Some (xs, rest) \<longleftrightarrow>
     length xs = n \<and> list_all ok xs \<and> bs = concat (map enc xs) @ rest"
proof (induction n arbitrary: bs xs)
  case 0
  then show ?case by auto
next
  case (Suc n)
  show ?case
  proof (cases "dec bs")
    case None
    then have "\<not> (ok x \<and> bs = enc x @ r)" for x r
      using dec_iff [of bs x r] by simp
    with None show ?thesis by (fastforce simp: length_Suc_conv)
  next
    case (Some p)
    then obtain x bs' where p: "dec bs = Some (x, bs')" by (cases p) auto
    then have x: "ok x" "bs = enc x @ bs'" by (simp_all add: dec_iff)
    then have "(dec_many dec (Suc n) bs = Some (xs, rest)) \<longleftrightarrow>
        (\<exists>ys. xs = x # ys \<and> dec_many dec n bs' = Some (ys, rest))"
      using p by (auto split: option.splits)
    also have "\<dots> \<longleftrightarrow> (\<exists>ys. xs = x # ys \<and> length ys = n \<and> list_all ok ys
        \<and> bs' = concat (map enc ys) @ rest)"
      using Suc.IH by simp
    also have "\<dots> \<longleftrightarrow> length xs = Suc n \<and> list_all ok xs \<and> bs = concat (map enc xs) @ rest"
    proof (cases xs)
      case (Cons y ys)
      have "y = x \<and> bs' = concat (map enc ys) @ rest"
        if "ok y" "bs = enc y @ concat (map enc ys) @ rest"
        using that x enc_prefix_free [of x y bs' "concat (map enc ys) @ rest"] by simp
      with Cons x show ?thesis by auto
    qed simp
    finally show ?thesis .
  qed
qed

lemma dec_many_enc:
  "list_all ok xs \<Longrightarrow> dec_many dec (length xs) (concat (map enc xs) @ rest) = Some (xs, rest)"
  by (simp add: dec_many_iff)

end

text \<open>Two codecs one after the other are a codec of pairs.\<close>

locale codec_pair =
  fst: prefix_codec enc1 dec1 ok1 + snd: prefix_codec enc2 dec2 ok2
  for enc1 :: "'a \<Rightarrow> byte list" and dec1 ok1
    and enc2 :: "'b \<Rightarrow> byte list" and dec2 ok2

sublocale codec_pair \<subseteq> both: prefix_codec
  "\<lambda>(x, y). enc1 x @ enc2 y" "dec_pair dec1 dec2" "\<lambda>(x, y). ok1 x \<and> ok2 y"
proof unfold_locales
  show "dec_pair dec1 dec2 ((case p of (x, y) \<Rightarrow> enc1 x @ enc2 y) @ rest) = Some (p, rest)"
    if "case p of (x, y) \<Rightarrow> ok1 x \<and> ok2 y" for p rest
    using that by (cases p) (simp add: dec_pair_def fst.dec_enc snd.dec_enc)
  show "(case p of (x, y) \<Rightarrow> ok1 x \<and> ok2 y) \<and> bs = (case p of (x, y) \<Rightarrow> enc1 x @ enc2 y) @ rest"
    if "dec_pair dec1 dec2 bs = Some (p, rest)" for bs p rest
    using that by (auto simp: dec_pair_def fst.dec_iff snd.dec_iff split: option.splits)
qed

section \<open>Big-endian 32-bit integers\<close>

definition get_be32 :: "byte list \<Rightarrow> (u32 \<times> byte list) option" where
  "get_be32 bs = (if length bs < 4 then None else Some (be32 bs, drop 4 bs))"

interpretation be32_codec: prefix_codec put_be32 get_be32 "\<lambda>_. True"
proof unfold_locales
  show "get_be32 (put_be32 w @ rest) = Some (w, rest)" for w rest
    by (simp add: get_be32_def)
  show "True \<and> bs = put_be32 w @ rest" if "get_be32 bs = Some (w, rest)" for bs w rest
  proof -
    from that have "4 \<le> length bs" "w = be32 (take 4 bs)" "rest = drop 4 bs"
      by (auto simp: get_be32_def split: if_splits)
    then show ?thesis by (simp only: put_be32_be32 length_take) (simp add: put_be32_be32 min_def del: be32_take)
  qed
qed

end
