(* ===== verification/Wire.thy ===== *)
theory Wire
  imports Codec
begin

text \<open>
  The agent wire format of package \<open>openssh\<close>: the length-prefixed frame, its validation
  (\<open>validateFrame\<close>, \<open>ValidateRequest\<close>, \<open>ValidateResponse\<close>), the failure reply, the SSH
  string reader \<open>takeString\<close> and the recognition of the session-binding extension.
\<close>

section \<open>Constants and the failure frame\<close>

definition AgentMaxMessageLength :: nat where
  "AgentMaxMessageLength = 2 ^ 14 - 1"

definition AgentMaxResponseLength :: nat where
  "AgentMaxResponseLength = 256 * 1024"

definition SSH_AGENT_FAIL :: byte where
  "SSH_AGENT_FAIL = 5"

definition genericFailResponse :: "byte list" where
  "genericFailResponse = [0, 0, 0, 1, SSH_AGENT_FAIL]"

lemmas limit_defs [text_simps] =
  AgentMaxMessageLength_def AgentMaxResponseLength_def SSH_AGENT_FAIL_def

section \<open>Frame validation\<close>

text \<open>The errors of \<open>validateFrame\<close> and \<open>ValidateResponse\<close>; \<open>None\<close> is Go's \<open>nil\<close>.\<close>

datatype frame_error =
    Frame_too_short
  | Frame_exceeds nat
  | Frame_length_mismatch
  | Malformed_failure_reply

definition validateFrame :: "byte list \<Rightarrow> nat \<Rightarrow> frame_error option" where
  "validateFrame frame maxPayload =
     (if length frame < 5 then Some Frame_too_short
      else if length frame - 4 > maxPayload then Some (Frame_exceeds maxPayload)
      else if be32 (take 4 frame) \<noteq> u32_of (length frame - 4) then Some Frame_length_mismatch
      else None)"

definition ValidateRequest :: "byte list \<Rightarrow> frame_error option" where
  "ValidateRequest frame = validateFrame frame (AgentMaxMessageLength - 4)"

definition ValidateResponse :: "byte list \<Rightarrow> frame_error option" where
  "ValidateResponse frame =
     (case validateFrame frame AgentMaxResponseLength of
        Some e \<Rightarrow> Some e
      | None \<Rightarrow>
          if frame ! 4 = SSH_AGENT_FAIL \<and> length frame \<noteq> 5 then Some Malformed_failure_reply
          else None)"

section \<open>SSH strings\<close>

text \<open>
  \<open>takeString\<close> advances the slice it is given only when it succeeds; \<open>None\<close> is its
  \<open>false\<close>, \<open>Some\<close> the value and the advanced slice.
\<close>

definition takeString :: "byte list \<Rightarrow> (byte list \<times> byte list) option" where
  "takeString data =
     (if length data < 4 then None
      else let n = unat (be32 (take 4 data)) in
        if n > length data - 4 then None
        else Some (take n (drop 4 data), drop (4 + n) data))"

text \<open>
  A session-bind request: \<open>SSH_AGENTC_EXTENSION\<close> (27) and the extension's name. The code
  calls it on validated frames only, so byte 4 exists.
\<close>

definition isSessionBind :: "byte list \<Rightarrow> bool" where
  "isSessionBind request =
     (if request ! 4 \<noteq> 27 then False
      else case takeString (drop 5 request) of
             None \<Rightarrow> False
           | Some (name, _) \<Rightarrow> name = lit ''session-bind@openssh.com'')"

section \<open>The encoders the readers are specified against\<close>

text \<open>
  An SSH string and a frame are both a big-endian length and that many bytes; a length has
  32 bits, which bounds what can be encoded.
\<close>

definition put_string :: "byte list \<Rightarrow> byte list" where
  "put_string s = put_be32 (u32_of (length s)) @ s"

definition string_ok :: "byte list \<Rightarrow> bool" where
  "string_ok s \<longleftrightarrow> length s < 2 ^ 32"

definition frame_of :: "byte list \<Rightarrow> byte list" where
  "frame_of payload = put_be32 (u32_of (length payload)) @ payload"

lemma length_put_string [simp]: "length (put_string s) = 4 + length s"
  by (simp add: put_string_def)

lemma length_frame_of [simp]: "length (frame_of p) = 4 + length p"
  by (simp add: frame_of_def)

lemma drop_frame_of [simp]: "drop 4 (frame_of p) = p"
  by (simp add: frame_of_def)

lemma frame_of_nth4: "p \<noteq> [] \<Longrightarrow> frame_of p ! 4 = hd p"
  by (simp add: frame_of_def nth_append hd_conv_nth)

interpretation string_codec: prefix_codec put_string takeString string_ok
proof unfold_locales
  show "takeString (put_string s @ rest) = Some (s, rest)" if "string_ok s" for s rest
    using that by (simp add: takeString_def put_string_def string_ok_def Let_def)
  show "string_ok s \<and> bs = put_string s @ rest" if "takeString bs = Some (s, rest)" for bs s rest
  proof -
    from that have len: "4 \<le> length bs"
      and n: "unat (be32 bs) \<le> length bs - 4"
      and s: "s = take (unat (be32 bs)) (drop 4 bs)"
      and rest: "rest = drop (4 + unat (be32 bs)) bs"
      by (auto simp: takeString_def Let_def split: if_splits)
    have "length s = unat (be32 bs)" using len n s by simp
    moreover have "take 4 bs = put_be32 (be32 bs)"
      using put_be32_be32 [of "take 4 bs"] len by simp
    moreover have "bs = take 4 bs @ s @ rest"
      unfolding s rest by (simp add: add.commute flip: drop_drop)
    ultimately show ?thesis
      using unat_u32_less [of "be32 bs"] by (simp add: put_string_def string_ok_def)
  qed
qed

lemma takeString_length:
  "takeString data = Some (s, rest) \<Longrightarrow> length data = 4 + length s + length rest"
  using string_codec.dec_sound by fastforce

lemma takeString_Nil [simp]: "takeString [] = None"
  by (simp add: takeString_def)

section \<open>What validation accepts\<close>

lemma validateFrame_None_iff:
  "maxPayload < 2 ^ 32 \<Longrightarrow> validateFrame frame maxPayload = None \<longleftrightarrow>
     (\<exists>payload. payload \<noteq> [] \<and> length payload \<le> maxPayload \<and> frame = frame_of payload)"
proof
  assume max: "maxPayload < 2 ^ 32" and "validateFrame frame maxPayload = None"
  then have len: "5 \<le> length frame" and le: "length frame - 4 \<le> maxPayload"
    and n: "be32 (take 4 frame) = u32_of (length frame - 4)"
    by (auto simp: validateFrame_def split: if_splits)
  have "take 4 frame = put_be32 (u32_of (length frame - 4))"
    using put_be32_be32 [of "take 4 frame"] len n by simp
  then have "frame = frame_of (drop 4 frame)"
    using append_take_drop_id [of 4 frame] by (simp add: frame_of_def)
  with len le show "\<exists>payload. payload \<noteq> [] \<and> length payload \<le> maxPayload \<and> frame = frame_of payload"
    by (intro exI [of _ "drop 4 frame"]) auto
next
  assume "\<exists>payload. payload \<noteq> [] \<and> length payload \<le> maxPayload \<and> frame = frame_of payload"
  then obtain p where "p \<noteq> []" "length p \<le> maxPayload" "frame = frame_of p" by blast
  then show "validateFrame frame maxPayload = None"
    by (cases p) (auto simp: validateFrame_def frame_of_def)
qed

lemma ValidateRequest_iff:
  "ValidateRequest frame = None \<longleftrightarrow>
     (\<exists>payload. payload \<noteq> [] \<and> length payload \<le> 16379 \<and> frame = frame_of payload)"
  using validateFrame_None_iff [of 16379 frame]
  by (simp add: ValidateRequest_def AgentMaxMessageLength_def)

lemma ValidateResponse_iff:
  "ValidateResponse frame = None \<longleftrightarrow>
     (\<exists>payload. payload \<noteq> [] \<and> length payload \<le> 262144 \<and> frame = frame_of payload
        \<and> (hd payload = SSH_AGENT_FAIL \<longrightarrow> payload = [SSH_AGENT_FAIL]))"
proof -
  have nth: "frame ! 4 = SSH_AGENT_FAIL \<and> length frame \<noteq> 5 \<longleftrightarrow>
      hd p = SSH_AGENT_FAIL \<and> p \<noteq> [SSH_AGENT_FAIL]"
    if "p \<noteq> []" "frame = frame_of p" for p
    using that by (cases p) (auto simp: frame_of_nth4)
  have "ValidateResponse frame = None \<longleftrightarrow> validateFrame frame 262144 = None
      \<and> \<not> (frame ! 4 = SSH_AGENT_FAIL \<and> length frame \<noteq> 5)"
    by (simp add: ValidateResponse_def AgentMaxResponseLength_def split: option.splits)
  also have "\<dots> \<longleftrightarrow> (\<exists>p. p \<noteq> [] \<and> length p \<le> 262144 \<and> frame = frame_of p
      \<and> \<not> (hd p = SSH_AGENT_FAIL \<and> p \<noteq> [SSH_AGENT_FAIL]))"
    using validateFrame_None_iff [of 262144 frame] nth by (simp, blast)
  finally show ?thesis by simp
qed

lemma ValidateRequest_length: "ValidateRequest frame = None \<Longrightarrow> 5 \<le> length frame \<and> length frame \<le> 16383"
  by (auto simp: ValidateRequest_iff Suc_le_eq)

lemma ValidateResponse_length:
  "ValidateResponse frame = None \<Longrightarrow> 5 \<le> length frame \<and> length frame \<le> 262148"
  by (auto simp: ValidateResponse_iff Suc_le_eq)

lemma generic_failure_is_frame: "genericFailResponse = frame_of [SSH_AGENT_FAIL]"
  by (simp add: genericFailResponse_def frame_of_def put_be32_def)

lemma generic_failure_valid [simp, frame_rules]: "ValidateResponse genericFailResponse = None"
  unfolding ValidateResponse_iff generic_failure_is_frame
  by (rule exI [of _ "[SSH_AGENT_FAIL]"]) simp

lemma length_genericFailResponse [simp]: "length genericFailResponse = 5"
  by (simp add: genericFailResponse_def)

lemma isSessionBind_iff:
  "p \<noteq> [] \<Longrightarrow> isSessionBind (frame_of p) \<longleftrightarrow>
     (\<exists>rest. p = 27 # put_string (lit ''session-bind@openssh.com'') @ rest)"
proof -
  assume "p \<noteq> []"
  then obtain c q where p: "p = c # q" by (cases p) auto
  have d: "drop 5 (frame_of p) = q"
    using drop_drop [of 1 4 "frame_of p"] by (simp add: p)
  have "string_ok (lit ''session-bind@openssh.com'')" by (simp add: string_ok_def)
  then have "(case takeString q of None \<Rightarrow> False | Some (name, _) \<Rightarrow> name = lit ''session-bind@openssh.com'')
      \<longleftrightarrow> (\<exists>rest. q = put_string (lit ''session-bind@openssh.com'') @ rest)"
    using string_codec.dec_enc by (auto split: option.splits dest: string_codec.dec_sound)
  then show ?thesis
    using frame_of_nth4 [of p] by (simp add: isSessionBind_def d) (simp add: p)
qed

end
