(* ===== verification/Conn.thy ===== *)
theory Conn
  imports Wire
begin

text \<open>
  A network connection (\<open>net.Conn\<close>) as the program uses it, and the standard library's
  \<open>io.ReadFull\<close> over it. The peer and the kernel are not in the repository: what they do
  is a script, universally quantified in every theorem. Each \<open>Read\<close> takes the next chunk
  (or its first bytes, when the chunk is longer than the buffer) together with an error,
  each \<open>Write\<close> the next count and error, each deadline call the next outcome. A script
  that has run out stands for a peer that does nothing more: the call ends with the
  deadline's error.
\<close>

datatype io_error = EOF | Unexpected_EOF | Short_write | Deadline_exceeded | Os_error nat

record conn =
  rd_script :: "(byte list \<times> io_error option) list"
  wr_script :: "(int \<times> io_error option) list"
  rd_deadlines :: "io_error option list"
  wr_deadlines :: "io_error option list"
  sent :: "byte list"

section \<open>The operations\<close>

definition SetReadDeadline :: "conn \<Rightarrow> io_error option \<times> conn" where
  "SetReadDeadline c =
     (case rd_deadlines c of
        [] \<Rightarrow> (None, c)
      | e # es \<Rightarrow> (e, c\<lparr>rd_deadlines := es\<rparr>))"

definition SetWriteDeadline :: "conn \<Rightarrow> io_error option \<times> conn" where
  "SetWriteDeadline c =
     (case wr_deadlines c of
        [] \<Rightarrow> (None, c)
      | e # es \<Rightarrow> (e, c\<lparr>wr_deadlines := es\<rparr>))"

definition conn_read :: "nat \<Rightarrow> conn \<Rightarrow> (byte list \<times> io_error option) \<times> conn" where
  "conn_read n c =
     (case rd_script c of
        [] \<Rightarrow> (([], Some Deadline_exceeded), c)
      | (bs, e) # script \<Rightarrow>
          if length bs \<le> n then ((bs, e), c\<lparr>rd_script := script\<rparr>)
          else ((take n bs, None), c\<lparr>rd_script := (drop n bs, e) # script\<rparr>))"

definition conn_write :: "byte list \<Rightarrow> conn \<Rightarrow> (int \<times> io_error option) \<times> conn" where
  "conn_write buf c =
     (case wr_script c of
        [] \<Rightarrow> ((0, Some Deadline_exceeded), c)
      | (n, e) # script \<Rightarrow>
          ((n, e), c\<lparr>wr_script := script, sent := sent c @ take (nat n) buf\<rparr>))"

text \<open>
  \<open>io.ReadFull\<close>: read until the buffer is full or a read fails; an error that comes with
  the last byte is dropped, and end of file after some bytes is \<open>ErrUnexpectedEOF\<close>.
\<close>

function read_loop :: "nat \<Rightarrow> byte list \<Rightarrow> conn \<Rightarrow> (byte list \<times> io_error option) \<times> conn" where
  "read_loop n acc c =
     (if n \<le> length acc then ((acc, None), c)
      else case conn_read (n - length acc) c of
             ((bs, None), c') \<Rightarrow> read_loop n (acc @ bs) c'
           | ((bs, Some e), c') \<Rightarrow>
               let acc' = acc @ bs in
               if n \<le> length acc' then ((acc', None), c')
               else if acc' \<noteq> [] \<and> e = EOF then ((acc', Some Unexpected_EOF), c')
               else ((acc', Some e), c'))"
  by pat_completeness auto
termination
  by (relation "measure (\<lambda>(n, acc, c). 2 * length (rd_script c) + (if n \<le> length acc then 0 else 1))")
    (auto simp: conn_read_def split: list.splits if_splits)

declare read_loop.simps [simp del]

definition ReadFull :: "nat \<Rightarrow> conn \<Rightarrow> (byte list \<times> io_error option) \<times> conn" where
  "ReadFull n c = read_loop n [] c"

section \<open>What a read delivers\<close>

text \<open>The bytes the peer will still send, and a peer that fails no read.\<close>

definition stream :: "conn \<Rightarrow> byte list" where
  "stream c = concat (map fst (rd_script c))"

definition clean_reads :: "conn \<Rightarrow> bool" where
  "clean_reads c \<longleftrightarrow> list_all (\<lambda>(_, e). e = None) (rd_script c)"

definition same_but_reads :: "conn \<Rightarrow> conn \<Rightarrow> bool" where
  "same_but_reads c c' \<longleftrightarrow> wr_script c' = wr_script c \<and> rd_deadlines c' = rd_deadlines c
     \<and> wr_deadlines c' = wr_deadlines c \<and> sent c' = sent c"

lemma same_but_reads_refl [simp]: "same_but_reads c c"
  by (simp add: same_but_reads_def)

lemma same_but_reads_trans: "same_but_reads a b \<Longrightarrow> same_but_reads b c \<Longrightarrow> same_but_reads a c"
  by (simp add: same_but_reads_def)

lemma conn_read_delivers:
  assumes "conn_read n c = ((bs, e), c')"
  shows "stream c = bs @ stream c'" and "length bs \<le> n" and "same_but_reads c c'"
    and "clean_reads c \<Longrightarrow> clean_reads c'"
    and "clean_reads c \<Longrightarrow> e \<noteq> None \<Longrightarrow> rd_script c = [] \<and> bs = [] \<and> c' = c"
  using assms
  by (auto simp: conn_read_def stream_def same_but_reads_def clean_reads_def
      split: list.splits if_splits)

lemma read_loop_delivers:
  "read_loop n acc c = ((bs, e), c') \<Longrightarrow>
     \<exists>new. bs = acc @ new \<and> stream c = new @ stream c' \<and> same_but_reads c c'
       \<and> (length acc \<le> n \<longrightarrow> length bs \<le> n) \<and> (e = None \<longrightarrow> n \<le> length bs)
       \<and> (clean_reads c \<longrightarrow> clean_reads c' \<and> (e \<noteq> None \<longrightarrow> length bs < n \<and> stream c' = []))"
proof (induction n acc c arbitrary: bs e c' rule: read_loop.induct)
  case (1 n acc c)
  show ?case
  proof (cases "n \<le> length acc")
    case True
    with "1.prems" show ?thesis by (simp add: read_loop.simps [of n acc c])
  next
    case False
    obtain bs1 e1 c1 where r: "conn_read (n - length acc) c = ((bs1, e1), c1)"
      by (metis prod.exhaust)
    note d = conn_read_delivers [OF r]
    show ?thesis
    proof (cases e1)
      case None
      with "1.prems" False r have "read_loop n (acc @ bs1) c1 = ((bs, e), c')"
        by (simp add: read_loop.simps [of n acc c])
      from "1.IH" [OF False r [symmetric] refl None this] obtain new where
        new: "bs = (acc @ bs1) @ new" "stream c1 = new @ stream c'" "same_but_reads c1 c'"
        "length (acc @ bs1) \<le> n \<longrightarrow> length bs \<le> n" "e = None \<longrightarrow> n \<le> length bs"
        "clean_reads c1 \<longrightarrow> clean_reads c' \<and> (e \<noteq> None \<longrightarrow> length bs < n \<and> stream c' = [])"
        by blast
      have "length (acc @ bs1) \<le> n" using d(2) False by simp
      with new d show ?thesis
        by (intro exI [of _ "bs1 @ new"]) (auto intro: same_but_reads_trans)
    next
      case (Some e2)
      with "1.prems" False r have "bs = acc @ bs1" "c' = c1" and
        e: "e = None \<longleftrightarrow> n \<le> length (acc @ bs1)"
        by (auto simp: read_loop.simps [of n acc c] Let_def split: if_splits)
      with d False Some show ?thesis
        by (intro exI [of _ bs1]) (auto simp: stream_def)
    qed
  qed
qed

text \<open>
  \<open>ReadFull\<close> delivers exactly the next \<open>n\<close> bytes of the stream, whatever the chunks, and
  leaves the rest; on a peer that fails no read it succeeds whenever they are there.
\<close>

lemma ReadFull_Ok:
  assumes "ReadFull n c = ((bs, None), c')"
  shows "stream c = bs @ stream c'" and "length bs = n" and "same_but_reads c c'"
    and "clean_reads c \<Longrightarrow> clean_reads c'"
  using read_loop_delivers [OF assms [unfolded ReadFull_def]] by auto

lemma ReadFull_frame:
  assumes "ReadFull n c = ((bs, e), c')"
  shows "same_but_reads c c'" and "clean_reads c \<Longrightarrow> clean_reads c'"
    and "\<exists>new. stream c = new @ stream c'"
  using read_loop_delivers [OF assms [unfolded ReadFull_def]] by auto

lemma ReadFull_clean:
  assumes "clean_reads c" and "n \<le> length (stream c)"
  shows "\<exists>c'. ReadFull n c = ((take n (stream c), None), c') \<and> stream c' = drop n (stream c)
    \<and> same_but_reads c c' \<and> clean_reads c'"
proof -
  obtain bs e c' where r: "ReadFull n c = ((bs, e), c')" by (metis prod.exhaust)
  from read_loop_delivers [OF r [unfolded ReadFull_def]] assms
  have d: "stream c = bs @ stream c'" "length bs \<le> n" "same_but_reads c c'" "clean_reads c'"
    "e = None \<longrightarrow> n \<le> length bs" "e \<noteq> None \<longrightarrow> length bs < n \<and> stream c' = []" by auto
  have "e = None"
  proof (rule ccontr)
    assume "e \<noteq> None"
    with d have "length (stream c) < n" by simp
    with assms(2) show False by simp
  qed
  with r d show ?thesis by auto
qed

lemma ReadFull_short:
  assumes "clean_reads c" and "length (stream c) < n"
  shows "\<exists>e c'. ReadFull n c = ((stream c, Some e), c') \<and> same_but_reads c c' \<and> stream c' = []"
proof -
  obtain bs e c' where r: "ReadFull n c = ((bs, e), c')" by (metis prod.exhaust)
  from read_loop_delivers [OF r [unfolded ReadFull_def]] assms
  have d: "stream c = bs @ stream c'" "same_but_reads c c'"
    "e = None \<longrightarrow> n \<le> length bs" "e \<noteq> None \<longrightarrow> stream c' = []" by auto
  with assms(2) have "e \<noteq> None" by auto
  with r d show ?thesis by auto
qed

text \<open>The size of the read script: every successful non-empty read makes it smaller.\<close>

definition script_size :: "conn \<Rightarrow> nat" where
  "script_size c = length (stream c)"

lemma ReadFull_smaller:
  "ReadFull n c = ((bs, None), c') \<Longrightarrow> script_size c = n + script_size c'"
  using ReadFull_Ok(1,2) [of n c bs c'] by (simp add: script_size_def)

section \<open>Writing all of a buffer\<close>

text \<open>
  The loop of \<open>exchange\<close>: a write that makes no progress, or claims more than the buffer,
  is a short write.
\<close>

function write_all :: "byte list \<Rightarrow> conn \<Rightarrow> io_error option \<times> conn" where
  "write_all remaining c =
     (if remaining = [] then (None, c)
      else case conn_write remaining c of
             ((n, Some e), c') \<Rightarrow> (Some e, c')
           | ((n, None), c') \<Rightarrow>
               if n \<le> 0 \<or> n > int (length remaining) then (Some Short_write, c')
               else write_all (drop (nat n) remaining) c')"
  by pat_completeness auto
termination
  by (relation "measure (\<lambda>(remaining, c). length remaining)") auto

declare write_all.simps [simp del]

definition same_but_writes :: "conn \<Rightarrow> conn \<Rightarrow> bool" where
  "same_but_writes c c' \<longleftrightarrow> rd_script c' = rd_script c \<and> rd_deadlines c' = rd_deadlines c
     \<and> wr_deadlines c' = wr_deadlines c"

lemma conn_write_frame:
  assumes "conn_write buf c = ((n, e), c')"
  shows "same_but_writes c c'" and "sent c' = sent c @ take (nat n) buf"
    and "e = None \<Longrightarrow> wr_script c = (n, None) # wr_script c'"
  using assms by (auto simp: conn_write_def same_but_writes_def split: list.splits)

text \<open>Only bytes of the buffer go out, in order; all of them when it succeeds.\<close>

lemma write_all_sends:
  "write_all buf c = (e, c') \<Longrightarrow>
     same_but_writes c c' \<and> (\<exists>k. sent c' = sent c @ take k buf) \<and> (e = None \<longrightarrow> sent c' = sent c @ buf)"
proof (induction buf c arbitrary: e c' rule: write_all.induct)
  case (1 buf c)
  show ?case
  proof (cases "buf = []")
    case True
    with "1.prems" show ?thesis by (simp add: write_all.simps same_but_writes_def)
  next
    case False
    obtain n e1 c1 where w: "conn_write buf c = ((n, e1), c1)" by (metis prod.exhaust)
    note d = conn_write_frame [OF w]
    consider (stop) "e \<noteq> None" "c' = c1"
      | (go) "e1 = None" "\<not> (n \<le> 0 \<or> n > int (length buf))" "write_all (drop (nat n) buf) c1 = (e, c')"
      using "1.prems" False w by (auto simp: write_all.simps [of buf c] split: option.splits if_splits)
    then show ?thesis
    proof cases
      case stop
      with d show ?thesis by auto
    next
      case go
      from "1.IH" [OF False w [symmetric] refl go(1,2,3)] obtain k where
        k: "same_but_writes c1 c'" "sent c' = sent c1 @ take k (drop (nat n) buf)"
        "e = None \<longrightarrow> sent c' = sent c1 @ drop (nat n) buf" by blast
      have "take (nat n) buf @ take k (drop (nat n) buf) = take (nat n + k) buf"
        by (simp add: take_add)
      with k d show ?thesis
        by (auto simp: same_but_writes_def intro: exI [of _ "nat n + k"])
    qed
  qed
qed

text \<open>The loop succeeds on exactly the writers that take the buffer in positive steps.\<close>

lemma write_all_succeeds:
  assumes "wr_script c = map (\<lambda>n. (int n, None)) ns @ script"
    and "list_all (\<lambda>n. 0 < n) ns" and "sum_list ns = length buf"
  shows "\<exists>c'. write_all buf c = (None, c') \<and> wr_script c' = script"
  using assms
proof (induction ns arbitrary: buf c)
  case Nil
  then show ?case by (simp add: write_all.simps)
next
  case (Cons n ns)
  let ?c = "c\<lparr>wr_script := map (\<lambda>n. (int n, None)) ns @ script, sent := sent c @ take n buf\<rparr>"
  have "\<exists>c'. write_all (drop n buf) ?c = (None, c') \<and> wr_script c' = script"
    using Cons.prems by (intro Cons.IH) auto
  moreover have "conn_write buf c = ((int n, None), ?c)"
    using Cons.prems by (simp add: conn_write_def)
  ultimately show ?case
    using Cons.prems by (subst write_all.simps) auto
qed

end
