(* ===== verification/Text.thy ===== *)
theory Text
  imports Prelude
begin

text \<open>
  Text as the program handles it: Go's UTF-8 decoding of byte strings into runes (a
  malformed byte becomes U+FFFD and is consumed alone), the Unicode classes the program
  tests, UTF-16 for the Windows API, and the three sanitizers that stand between peer data
  and the user interface: \<open>displayText\<close> (\<^verbatim>\<open>openssh/keys.go\<close>), \<open>cleanUIText\<close> and
  \<open>copyUIText\<close> (\<^verbatim>\<open>pageant/desktop_windows.go\<close>).
\<close>

section \<open>UTF-8\<close>

definition RuneError :: rune where
  "RuneError = 0xFFFD"

definition valid_rune :: "rune \<Rightarrow> bool" where
  "valid_rune r \<longleftrightarrow> r < 0xD800 \<or> (0xE000 \<le> r \<and> r \<le> 0x10FFFF)"

definition in_range :: "nat \<Rightarrow> nat \<Rightarrow> byte \<Rightarrow> bool" where
  "in_range lo hi b \<longleftrightarrow> lo \<le> unat b \<and> unat b \<le> hi"

text \<open>The bytes that may follow a given first byte: no overlong form, no surrogate.\<close>

definition second_lo :: "nat \<Rightarrow> nat" where
  "second_lo x = (if x = 0xE0 then 0xA0 else if x = 0xF0 then 0x90 else 0x80)"

definition second_hi :: "nat \<Rightarrow> nat" where
  "second_hi x = (if x = 0xED then 0x9F else if x = 0xF4 then 0x8F else 0xBF)"

text \<open>A multi-byte sequence after its first byte \<open>x\<close>.\<close>

definition next_multi :: "nat \<Rightarrow> byte list \<Rightarrow> (rune \<times> byte list) option" where
  "next_multi x bs =
     (if 0xC2 \<le> x \<and> x \<le> 0xDF then
        (case bs of
           b1 # rest \<Rightarrow>
             if in_range 0x80 0xBF b1 then Some ((x - 0xC0) * 64 + (unat b1 - 0x80), rest) else None
         | _ \<Rightarrow> None)
      else if 0xE0 \<le> x \<and> x \<le> 0xEF then
        (case bs of
           b1 # b2 # rest \<Rightarrow>
             if in_range (second_lo x) (second_hi x) b1 \<and> in_range 0x80 0xBF b2
             then Some ((x - 0xE0) * 4096 + (unat b1 - 0x80) * 64 + (unat b2 - 0x80), rest)
             else None
         | _ \<Rightarrow> None)
      else if 0xF0 \<le> x \<and> x \<le> 0xF4 then
        (case bs of
           b1 # b2 # b3 # rest \<Rightarrow>
             if in_range (second_lo x) (second_hi x) b1 \<and> in_range 0x80 0xBF b2
               \<and> in_range 0x80 0xBF b3
             then Some ((x - 0xF0) * 262144 + (unat b1 - 0x80) * 4096 + (unat b2 - 0x80) * 64
                        + (unat b3 - 0x80), rest)
             else None
         | _ \<Rightarrow> None)
      else None)"

fun next_rune :: "byte list \<Rightarrow> (rune \<times> byte list) option" where
  "next_rune [] = None"
| "next_rune (b # bs) =
     (if unat b < 0x80 then Some (unat b, bs)
      else case next_multi (unat b) bs of
             Some p \<Rightarrow> Some p
           | None \<Rightarrow> Some (RuneError, bs))"

lemma next_multi_shorter: "next_multi x bs = Some (r, rest) \<Longrightarrow> length rest < length bs"
  by (auto simp: next_multi_def split: if_splits list.splits)

lemma next_rune_shorter: "next_rune bs = Some (r, rest) \<Longrightarrow> length rest < length bs"
  by (cases bs) (auto dest: next_multi_shorter split: if_splits option.splits)

lemma next_rune_None_iff [simp]: "next_rune bs = None \<longleftrightarrow> bs = []"
  by (cases bs) (auto split: option.splits)

text \<open>\<open>[]rune(string)\<close> and \<open>range\<close> over a string.\<close>

function runes_of :: "gostr \<Rightarrow> rune list" where
  "runes_of bs =
     (case next_rune bs of
        None \<Rightarrow> []
      | Some (r, rest) \<Rightarrow> r # runes_of rest)"
  by pat_completeness auto
termination
  by (relation "measure length") (auto simp: next_rune_shorter)

declare runes_of.simps [simp del]

lemma runes_of_Nil [simp]: "runes_of [] = []"
  by (simp add: runes_of.simps)

lemma runes_of_next: "next_rune bs = Some (r, rest) \<Longrightarrow> runes_of bs = r # runes_of rest"
  by (simp add: runes_of.simps [of bs])

lemma runes_of_ascii [simp]: "unat b < 128 \<Longrightarrow> runes_of (b # bs) = unat b # runes_of bs"
  by (rule runes_of_next) simp

definition encode_rune :: "rune \<Rightarrow> byte list" where
  "encode_rune r =
     (if r < 0x80 then [byte_of r]
      else if r < 0x800 then [byte_of (0xC0 + r div 64), byte_of (0x80 + r mod 64)]
      else if (0xD800 \<le> r \<and> r < 0xE000) \<or> 0x10FFFF < r then [0xEF, 0xBF, 0xBD]
      else if r < 0x10000 then
        [byte_of (0xE0 + r div 4096), byte_of (0x80 + r div 64 mod 64), byte_of (0x80 + r mod 64)]
      else
        [byte_of (0xF0 + r div 262144), byte_of (0x80 + r div 4096 mod 64),
         byte_of (0x80 + r div 64 mod 64), byte_of (0x80 + r mod 64)])"

definition encode_runes :: "rune list \<Rightarrow> gostr" where
  "encode_runes rs = concat (map encode_rune rs)"

lemma encode_runes_Nil [simp]: "encode_runes [] = []"
  by (simp add: encode_runes_def)

lemma encode_runes_Cons [simp]: "encode_runes (r # rs) = encode_rune r @ encode_runes rs"
  by (simp add: encode_runes_def)

lemma encode_runes_append [simp]: "encode_runes (rs @ ss) = encode_runes rs @ encode_runes ss"
  by (simp add: encode_runes_def)

lemma next_multi_valid: "next_multi x bs = Some (r, rest) \<Longrightarrow> valid_rune r"
  by (auto simp: next_multi_def valid_rune_def in_range_def second_lo_def second_hi_def
      split: if_splits list.splits; linarith)

lemma next_rune_valid: "next_rune bs = Some (r, rest) \<Longrightarrow> valid_rune r"
  by (cases bs) (auto simp: RuneError_def valid_rune_def dest: next_multi_valid
      split: if_splits option.splits)

lemma runes_of_valid: "list_all valid_rune (runes_of bs)"
proof (induction bs rule: runes_of.induct)
  case (1 bs)
  show ?case
  proof (cases "next_rune bs")
    case None
    then show ?thesis by simp
  next
    case (Some p)
    then obtain r rest where "next_rune bs = Some (r, rest)" by (cases p) auto
    with "1.IH" show ?thesis by (simp add: runes_of_next next_rune_valid)
  qed
qed

lemma split64:
  fixes r :: nat
  shows "r div 4096 = r div 64 div 64" and "r div 262144 = r div 64 div 64 div 64"
  by (simp_all add: div_mult2_eq [symmetric])

lemma next_rune_encode2:
  assumes "0x80 \<le> r" "r < 0x800"
  shows "next_rune (encode_rune r @ bs) = Some (r, bs)"
proof -
  define q where "q = r div 64"
  have q: "2 \<le> q" "q < 32" and r: "q * 64 + r mod 64 = r"
    using assms div_mult_mod_eq [of r 64] unfolding q_def by (simp_all add: less_mult_imp_div_less)
  define m where "m = r mod 64"
  have m: "m < 64" by (simp add: m_def)
  have enc: "encode_rune r = [byte_of (0xC0 + q), byte_of (0x80 + m)]"
    using assms by (simp add: encode_rune_def q_def m_def)
  show ?thesis
    using q r m unfolding enc m_def [symmetric]
    by (simp add: next_multi_def in_range_def algebra_simps)
qed

lemma next_rune_encode3:
  assumes "0x800 \<le> r" "r < 0x10000" "valid_rune r"
  shows "next_rune (encode_rune r @ bs) = Some (r, bs)"
proof -
  define a b c where "a = r div 64 div 64" and "b = r div 64 mod 64" and "c = r mod 64"
  have bc: "b < 64" "c < 64" by (simp_all add: b_def c_def)
  have r: "r = (a * 64 + b) * 64 + c"
    by (simp add: a_def b_def c_def div_mult_mod_eq)
  have a: "a < 16" using assms(2) r by simp
  have lo: "a = 0 \<Longrightarrow> 32 \<le> b" using assms(1) r bc by auto
  have hi: "a = 13 \<Longrightarrow> b < 32" using assms(3) r bc by (auto simp: valid_rune_def)
  have enc: "encode_rune r = [byte_of (0xE0 + a), byte_of (0x80 + b), byte_of (0x80 + c)]"
    using assms unfolding a_def b_def c_def
    by (auto simp: encode_rune_def valid_rune_def split64)
  show ?thesis
    using a bc lo hi unfolding enc
    by (auto simp: next_multi_def in_range_def second_lo_def second_hi_def r algebra_simps)
qed

lemma next_rune_encode4:
  assumes "0x10000 \<le> r" "valid_rune r"
  shows "next_rune (encode_rune r @ bs) = Some (r, bs)"
proof -
  define a b c d where "a = r div 64 div 64 div 64" and "b = r div 64 div 64 mod 64"
    and "c = r div 64 mod 64" and "d = r mod 64"
  have bcd: "b < 64" "c < 64" "d < 64" by (simp_all add: b_def c_def d_def)
  have r: "r = ((a * 64 + b) * 64 + c) * 64 + d"
    by (simp add: a_def b_def c_def d_def div_mult_mod_eq)
  have le: "r \<le> 0x10FFFF" using assms by (auto simp: valid_rune_def)
  have a: "a < 5" using le r by simp
  have lo: "a = 0 \<Longrightarrow> 16 \<le> b" using assms(1) r bcd by auto
  have hi: "a = 4 \<Longrightarrow> b < 16" using le r bcd by auto
  have enc: "encode_rune r =
      [byte_of (0xF0 + a), byte_of (0x80 + b), byte_of (0x80 + c), byte_of (0x80 + d)]"
    using assms le unfolding a_def b_def c_def d_def
    by (auto simp: encode_rune_def split64)
  show ?thesis
    using a bcd lo hi unfolding enc
    by (auto simp: next_multi_def in_range_def second_lo_def second_hi_def r algebra_simps)
qed

lemma next_rune_encode: "valid_rune r \<Longrightarrow> next_rune (encode_rune r @ bs) = Some (r, bs)"
proof -
  assume v: "valid_rune r"
  consider "r < 0x80" | "0x80 \<le> r" "r < 0x800" | "0x800 \<le> r" "r < 0x10000" | "0x10000 \<le> r"
    by linarith
  then show ?thesis
  proof cases
    case 1
    then show ?thesis by (simp add: encode_rune_def)
  qed (use v in \<open>simp_all add: next_rune_encode2 next_rune_encode3 next_rune_encode4\<close>)
qed

lemma runes_of_encode_rune [simp]:
  "valid_rune r \<Longrightarrow> runes_of (encode_rune r @ bs) = r # runes_of bs"
  by (rule runes_of_next) (rule next_rune_encode)

lemma runes_of_encode [simp]: "list_all valid_rune rs \<Longrightarrow> runes_of (encode_runes rs) = rs"
  by (induction rs) simp_all

end
