(* ===== verification/Sanitize.thy ===== *)
theory Sanitize
  imports Text
begin

text \<open>
  The sanitizers between peer-controlled bytes and native controls, with the contract they
  share as the locale \<open>text_sanitizer\<close>: the output is well-formed UTF-8 of bounded length
  that holds no control character and no invisible formatting character.
\<close>

section \<open>Unicode classes\<close>

definition in_ranges :: "(nat \<times> nat) list \<Rightarrow> rune \<Rightarrow> bool" where
  "in_ranges rs r \<longleftrightarrow> list_ex (\<lambda>(lo, hi). lo \<le> r \<and> r \<le> hi) rs"

text \<open>\<open>unicode.IsControl\<close>: category Cc.\<close>

definition is_control :: "rune \<Rightarrow> bool" where
  "is_control r \<longleftrightarrow> r < 0x20 \<or> (0x7F \<le> r \<and> r < 0xA0)"

text \<open>\<open>unicode.Cf\<close> (format characters), \<open>unicode.Zl\<close> and \<open>unicode.Zp\<close>.\<close>

definition cf_ranges :: "(nat \<times> nat) list" where
  "cf_ranges =
     [(0xAD, 0xAD), (0x600, 0x605), (0x61C, 0x61C), (0x6DD, 0x6DD), (0x70F, 0x70F),
      (0x890, 0x891), (0x8E2, 0x8E2), (0x180E, 0x180E), (0x200B, 0x200F), (0x202A, 0x202E),
      (0x2060, 0x2064), (0x2066, 0x206F), (0xFEFF, 0xFEFF), (0xFFF9, 0xFFFB),
      (0x110BD, 0x110BD), (0x110CD, 0x110CD), (0x13430, 0x1343F), (0x1BCA0, 0x1BCA3),
      (0x1D173, 0x1D17A), (0xE0001, 0xE0001), (0xE0020, 0xE007F)]"

definition is_cf :: "rune \<Rightarrow> bool" where
  "is_cf r \<longleftrightarrow> in_ranges cf_ranges r"

definition is_zl_zp :: "rune \<Rightarrow> bool" where
  "is_zl_zp r \<longleftrightarrow> r = 0x2028 \<or> r = 0x2029"

text \<open>\<open>unicode.IsSpace\<close>: the property White_Space.\<close>

definition is_space :: "rune \<Rightarrow> bool" where
  "is_space r \<longleftrightarrow> in_ranges
     [(0x09, 0x0D), (0x20, 0x20), (0x85, 0x85), (0xA0, 0xA0), (0x1680, 0x1680),
      (0x2000, 0x200A), (0x2028, 0x2029), (0x202F, 0x202F), (0x205F, 0x205F),
      (0x3000, 0x3000)] r"

lemma space_is_plain [simp]:
  "\<not> is_control 0x20" "\<not> is_cf 0x20" "\<not> is_zl_zp 0x20" "valid_rune 0x20"
  "\<not> is_control 0x2026" "\<not> is_cf 0x2026" "\<not> is_zl_zp 0x2026" "valid_rune 0x2026"
  by (simp_all add: is_control_def is_cf_def cf_ranges_def in_ranges_def is_zl_zp_def valid_rune_def)

section \<open>displayText\<close>

definition hidden_in_display :: "rune \<Rightarrow> bool" where
  "hidden_in_display r \<longleftrightarrow> is_control r \<or> is_cf r \<or> is_zl_zp r"

text \<open>
  The loop over \<open>[]rune(string(value))\<close>: at index \<open>limit\<close> it writes an ellipsis and
  stops; before that every hidden rune is written as a space.
\<close>

fun display_loop :: "nat \<Rightarrow> nat \<Rightarrow> rune list \<Rightarrow> rune list" where
  "display_loop limit count [] = []"
| "display_loop limit count (r # rs) =
     (if count = limit then [0x2026]
      else (if hidden_in_display r then 0x20 else r) # display_loop limit (Suc count) rs)"

definition displayText :: "byte list \<Rightarrow> nat \<Rightarrow> gostr" where
  "displayText value limit = encode_runes (display_loop limit 0 (runes_of value))"

definition blank_if :: "(rune \<Rightarrow> bool) \<Rightarrow> rune \<Rightarrow> rune" where
  "blank_if hidden r = (if hidden r then 0x20 else r)"

lemma display_loop_eq:
  "count \<le> limit \<Longrightarrow> display_loop limit count rs =
     map (blank_if hidden_in_display) (take (limit - count) rs)
     @ (if length rs > limit - count then [0x2026] else [])"
  by (induction limit count rs rule: display_loop.induct)
    (auto simp: blank_if_def take_Cons' not_less Suc_diff_le dest: le_antisym)

lemma blank_if_valid: "list_all valid_rune rs \<Longrightarrow> list_all valid_rune (map (blank_if p) rs)"
  by (induction rs) (auto simp: blank_if_def)

lemma list_all_take: "list_all p xs \<Longrightarrow> list_all p (take n xs)"
  by (auto simp: list_all_iff dest: in_set_takeD)

lemma runes_of_displayText:
  "runes_of (displayText value limit) =
     map (blank_if hidden_in_display) (take limit (runes_of value))
     @ (if length (runes_of value) > limit then [0x2026] else [])"
proof -
  have "list_all valid_rune (display_loop limit 0 (runes_of value))"
    using blank_if_valid [OF list_all_take [OF runes_of_valid]] by (auto simp: display_loop_eq)
  then have "runes_of (displayText value limit) = display_loop limit 0 (runes_of value)"
    unfolding displayText_def by (rule runes_of_encode)
  then show ?thesis by (simp add: display_loop_eq)
qed

section \<open>cleanUIText\<close>

definition hidden_in_ui :: "rune \<Rightarrow> bool" where
  "hidden_in_ui r \<longleftrightarrow> is_control r \<or> is_cf r"

definition max_ui_runes :: nat where
  "max_ui_runes = 2048"

text \<open>The loop appends to \<open>out\<close> and breaks when it holds 2048 runes.\<close>

fun clean_loop :: "rune list \<Rightarrow> rune list \<Rightarrow> rune list" where
  "clean_loop out [] = out"
| "clean_loop out (r # rs) =
     (let out' = out @ [if hidden_in_ui r then 0x20 else r] in
      if length out' = max_ui_runes then out' else clean_loop out' rs)"

definition cleanUIText :: "gostr \<Rightarrow> gostr" where
  "cleanUIText value = encode_runes (clean_loop [] (runes_of value))"

lemma clean_loop_eq:
  "length out < max_ui_runes \<Longrightarrow>
     clean_loop out rs = out @ map (blank_if hidden_in_ui) (take (max_ui_runes - length out) rs)"
proof (induction out rs rule: clean_loop.induct)
  case (1 out)
  then show ?case by simp
next
  case (2 out r rs)
  let ?out = "out @ [blank_if hidden_in_ui r]"
  have take: "take (max_ui_runes - length out) (r # rs) = r # take (max_ui_runes - length ?out) rs"
    using "2.prems" Suc_diff_Suc [of "length out" max_ui_runes, symmetric] by simp
  show ?case
  proof (cases "length ?out = max_ui_runes")
    case True
    then show ?thesis unfolding take by (simp add: Let_def blank_if_def)
  next
    case False
    with "2.prems" have "length ?out < max_ui_runes" by simp
    with "2.IH" [OF refl] False have "clean_loop ?out rs =
        ?out @ map (blank_if hidden_in_ui) (take (max_ui_runes - length ?out) rs)"
      by (simp add: blank_if_def)
    with False show ?thesis unfolding take by (simp add: Let_def blank_if_def)
  qed
qed

lemma runes_of_cleanUIText:
  "runes_of (cleanUIText value) = map (blank_if hidden_in_ui) (take max_ui_runes (runes_of value))"
proof -
  have eq: "clean_loop [] (runes_of value) =
      map (blank_if hidden_in_ui) (take max_ui_runes (runes_of value))"
    by (simp add: clean_loop_eq max_ui_runes_def)
  show ?thesis
    unfolding cleanUIText_def eq
    by (rule runes_of_encode) (rule blank_if_valid [OF list_all_take [OF runes_of_valid]])
qed

section \<open>The contract of a sanitizer\<close>

lemma encode_rune_nonzero: "valid_rune r \<Longrightarrow> r \<noteq> 0 \<Longrightarrow> 0 \<notin> set (encode_rune r)"
proof -
  assume v: "valid_rune r" and nz: "r \<noteq> 0"
  have byte_nz: "byte_of n \<noteq> 0" if "0 < n" "n < 256" for n
  proof
    assume "byte_of n = 0"
    then have "unat (byte_of n) = 0" by simp
    with that show False by simp
  qed
  have b: "r div 262144 < 5" "r div 64 mod 64 < 64" "r mod 64 < 64" "r div 4096 mod 64 < 64"
    using v by (auto simp: valid_rune_def less_mult_imp_div_less)
  have c: "r < 0x800 \<Longrightarrow> r div 64 < 32" "r < 0x10000 \<Longrightarrow> r div 4096 < 16"
    by (simp_all add: less_mult_imp_div_less)
  show ?thesis
    using nz b c by (auto simp: encode_rune_def byte_nz byte_nz [THEN not_sym])
qed

locale text_sanitizer =
  fixes clean :: "byte list \<Rightarrow> gostr"
    and hidden :: "rune \<Rightarrow> bool"
    and bound :: nat
  assumes clean_encoded: "clean v = encode_runes (runes_of (clean v))"
    and clean_visible: "list_all (\<lambda>r. \<not> hidden r) (runes_of (clean v))"
    and clean_bounded: "length (runes_of (clean v)) \<le> bound"
    and hidden_control: "is_control r \<Longrightarrow> hidden r"
    and clean_nonempty: "v \<noteq> [] \<Longrightarrow> 0 < bound \<Longrightarrow> clean v \<noteq> []"
begin

lemma clean_no_control: "r \<in> set (runes_of (clean v)) \<Longrightarrow> \<not> is_control r"
  using clean_visible [of v] hidden_control [of r] by (auto simp: list_all_iff)

text \<open>No NUL byte, so the text cannot end a native string early.\<close>

lemma clean_no_NUL: "0 \<notin> set (clean v)"
proof
  assume "0 \<in> set (clean v)"
  then have "0 \<in> set (encode_runes (runes_of (clean v)))" using clean_encoded [of v] by simp
  then obtain r where r: "r \<in> set (runes_of (clean v))" "0 \<in> set (encode_rune r)"
    by (auto simp: encode_runes_def)
  have "r \<noteq> 0" using clean_no_control [OF r(1)] by (auto simp: is_control_def)
  moreover have "valid_rune r" using runes_of_valid [of "clean v"] r(1) by (simp add: list_all_iff)
  ultimately show False using encode_rune_nonzero r(2) by blast
qed

text \<open>No line break, so the text cannot forge a row or a field.\<close>

lemma clean_no_newline: "10 \<notin> set (runes_of (clean v))" "13 \<notin> set (runes_of (clean v))"
  using clean_no_control [of 10 v] clean_no_control [of 13 v] by (auto simp: is_control_def)

end

text \<open>\<open>displayText\<close> at any limit, and \<open>cleanUIText\<close>, keep the contract.\<close>

lemma blank_if_visible: "\<not> p 0x20 \<Longrightarrow> list_all (\<lambda>r. \<not> p r) (map (blank_if p) rs)"
  by (induction rs) (auto simp: blank_if_def)

lemma runes_of_neq_Nil [simp]: "runes_of bs = [] \<longleftrightarrow> bs = []"
  by (cases "next_rune bs") (auto simp: runes_of_next runes_of.simps [of bs])

interpretation display: text_sanitizer
  "\<lambda>v. displayText v limit" hidden_in_display "Suc limit" for limit
proof unfold_locales
  show "displayText v limit = encode_runes (runes_of (displayText v limit))" for v
    unfolding runes_of_displayText by (simp add: displayText_def display_loop_eq)
  show "list_all (\<lambda>r. \<not> hidden_in_display r) (runes_of (displayText v limit))" for v
    using blank_if_visible [of hidden_in_display "take limit (runes_of v)"]
    by (auto simp: runes_of_displayText hidden_in_display_def)
  show "length (runes_of (displayText v limit)) \<le> Suc limit" for v
    by (simp add: runes_of_displayText)
  show "displayText v limit \<noteq> []" if "v \<noteq> []" for v
    using that runes_of_displayText [of v limit]
    by (cases "runes_of v") (auto simp flip: runes_of_neq_Nil)
qed (simp add: hidden_in_display_def)

interpretation ui: text_sanitizer cleanUIText hidden_in_ui max_ui_runes
proof unfold_locales
  show "cleanUIText v = encode_runes (runes_of (cleanUIText v))" for v
    unfolding runes_of_cleanUIText
    by (simp add: cleanUIText_def clean_loop_eq max_ui_runes_def)
  show "list_all (\<lambda>r. \<not> hidden_in_ui r) (runes_of (cleanUIText v))" for v
    unfolding runes_of_cleanUIText by (rule blank_if_visible) (simp add: hidden_in_ui_def)
  show "length (runes_of (cleanUIText v)) \<le> max_ui_runes" for v
    by (simp add: runes_of_cleanUIText)
  show "cleanUIText v \<noteq> []" if "v \<noteq> []" "0 < max_ui_runes" for v
    using that runes_of_cleanUIText [of v] by (auto simp flip: runes_of_neq_Nil)
qed (simp add: hidden_in_ui_def)

section \<open>UTF-16 and copyUIText\<close>

definition is_high :: "u16 \<Rightarrow> bool" where
  "is_high u \<longleftrightarrow> 0xD800 \<le> unat u \<and> unat u \<le> 0xDBFF"

definition is_low :: "u16 \<Rightarrow> bool" where
  "is_low u \<longleftrightarrow> 0xDC00 \<le> unat u \<and> unat u \<le> 0xDFFF"

text \<open>\<open>utf16.Encode\<close> and \<open>utf16.Decode\<close>.\<close>

definition utf16_rune :: "rune \<Rightarrow> u16 list" where
  "utf16_rune r =
     (if r < 0xD800 \<or> (0xE000 \<le> r \<and> r < 0x10000) then [u16_of r]
      else if 0x10000 \<le> r \<and> r \<le> 0x10FFFF then
        [u16_of (0xD800 + (r - 0x10000) div 1024), u16_of (0xDC00 + (r - 0x10000) mod 1024)]
      else [0xFFFD])"

definition utf16_encode :: "rune list \<Rightarrow> u16 list" where
  "utf16_encode rs = concat (map utf16_rune rs)"

fun utf16_decode :: "u16 list \<Rightarrow> rune list" where
  "utf16_decode [] = []"
| "utf16_decode [u] = (if is_high u \<or> is_low u then [RuneError] else [unat u])"
| "utf16_decode (u # v # us) =
     (if \<not> is_high u \<and> \<not> is_low u then unat u # utf16_decode (v # us)
      else if is_high u \<and> is_low v
        then ((unat u - 0xD800) * 1024 + (unat v - 0xDC00) + 0x10000) # utf16_decode us
      else RuneError # utf16_decode (v # us))"

text \<open>
  \<open>clear\<close>, truncation to leave room for the terminator, the step back over a high
  surrogate whose pair was cut, and \<open>copy\<close>.
\<close>

definition copyUIText :: "u16 list \<Rightarrow> gostr \<Rightarrow> u16 list" where
  "copyUIText destination value =
     (if destination = [] then destination
      else let cleared = replicate (length destination) 0;
               encoded = utf16_encode (runes_of (cleanUIText value));
               limit = length destination - 1;
               kept = (if length encoded > limit
                       then (if limit > 0 \<and> 0xD800 \<le> unat (take limit encoded ! (limit - 1))
                                \<and> unat (take limit encoded ! (limit - 1)) \<le> 0xDBFF
                             then take (limit - 1) encoded
                             else take limit encoded)
                       else encoded)
           in kept @ drop (length kept) cleared)"

lemma utf16_encode_simps [simp]:
  "utf16_encode [] = []" "utf16_encode (r # rs) = utf16_rune r @ utf16_encode rs"
  by (simp_all add: utf16_encode_def)

lemma utf16_rune_cases:
  assumes "valid_rune r"
  obtains (bmp) u where "utf16_rune r = [u]" "\<not> is_high u" "\<not> is_low u" "unat u = r"
  | (astral) h l where "utf16_rune r = [h, l]" "is_high h" "is_low l"
      "(unat h - 0xD800) * 1024 + (unat l - 0xDC00) + 0x10000 = r"
proof (cases "r < 0x10000")
  case True
  with assms show ?thesis
    by (intro bmp [of "u16_of r"]) (auto simp: utf16_rune_def valid_rune_def is_high_def is_low_def)
next
  case False
  let ?d = "r - 0x10000"
  have le: "r \<le> 0x10FFFF" using assms by (auto simp: valid_rune_def)
  have d: "?d div 1024 < 1024" "?d mod 1024 < 1024"
    using le by (simp_all add: less_mult_imp_div_less)
  have eq: "?d div 1024 * 1024 + ?d mod 1024 + 0x10000 = r"
    using False div_mult_mod_eq [of ?d 1024] by simp
  show ?thesis
    by (rule astral [of "u16_of (0xD800 + ?d div 1024)" "u16_of (0xDC00 + ?d mod 1024)"])
      (use False le d eq in \<open>auto simp: utf16_rune_def is_high_def is_low_def\<close>)
qed

lemma utf16_decode_bmp: "\<not> is_high u \<Longrightarrow> \<not> is_low u \<Longrightarrow> utf16_decode (u # us) = unat u # utf16_decode us"
  by (cases us) simp_all

lemma utf16_decode_encode: "list_all valid_rune rs \<Longrightarrow> utf16_decode (utf16_encode rs) = rs"
proof (induction rs)
  case (Cons r rs)
  then have "valid_rune r" by simp
  then show ?case
    by (cases rule: utf16_rune_cases) (use Cons in \<open>auto simp: utf16_decode_bmp\<close>)
qed simp

text \<open>Cutting an encoding and stepping back over a split pair leaves a whole encoding.\<close>

definition unsplit :: "u16 list \<Rightarrow> u16 list" where
  "unsplit us = (if us \<noteq> [] \<and> is_high (last us) then butlast us else us)"

lemma unsplit_Cons: "us \<noteq> [] \<Longrightarrow> unsplit (u # us) = u # unsplit us"
  by (auto simp: unsplit_def)

lemma unsplit_take_encode:
  "list_all valid_rune rs \<Longrightarrow> \<exists>k. unsplit (take n (utf16_encode rs)) = utf16_encode (take k rs)"
proof (induction rs arbitrary: n)
  case Nil
  then show ?case by (simp add: unsplit_def)
next
  case (Cons r rs)
  then have "valid_rune r" and IH: "\<exists>k. unsplit (take m (utf16_encode rs)) = utf16_encode (take k rs)" for m
    by simp_all
  have none: "\<exists>k. [] = utf16_encode (take k (r # rs))" by (rule exI [of _ 0]) simp
  have one: "\<exists>k. utf16_rune r @ us = utf16_encode (take k (r # rs))"
    if "\<exists>k. us = utf16_encode (take k rs)" for us
    using that by (auto intro: exI [of _ "Suc k" for k])
  from \<open>valid_rune r\<close> show ?case
  proof (cases rule: utf16_rune_cases)
    case (bmp u)
    show ?thesis
    proof (cases n)
      case 0
      then show ?thesis using none by (simp add: unsplit_def)
    next
      case (Suc m)
      have "unsplit (u # take m (utf16_encode rs)) = u # unsplit (take m (utf16_encode rs))"
        using bmp(2) by (auto simp: unsplit_def)
      then show ?thesis using one [OF IH [of m]] Suc bmp(1) by simp
    qed
  next
    case (astral h l)
    show ?thesis
    proof (cases n rule: nat.exhaust)
      case zero
      then show ?thesis using none by (simp add: unsplit_def)
    next
      case (Suc m)
      show ?thesis
      proof (cases m)
        case 0
        then show ?thesis using none Suc astral by (simp add: unsplit_def)
      next
        case (Suc k)
        have "\<not> is_high l" using astral(3) by (auto simp: is_high_def is_low_def)
        then have "unsplit (h # l # take k (utf16_encode rs)) = h # l # unsplit (take k (utf16_encode rs))"
          by (auto simp: unsplit_def)
        then show ?thesis using one [OF IH [of k]] Suc \<open>n = Suc m\<close> astral(1) by simp
      qed
    qed
  qed
qed

lemma copyUIText_eq:
  assumes "destination \<noteq> []"
  shows "\<exists>k. let kept = utf16_encode (take k (runes_of (cleanUIText value))) in
    length kept < length destination
    \<and> (kept = utf16_encode (runes_of (cleanUIText value)) \<or> length destination \<le> length kept + 2)
    \<and> copyUIText destination value = kept @ replicate (length destination - length kept) 0"
proof -
  let ?rs = "runes_of (cleanUIText value)" and ?limit = "length destination - 1"
  let ?enc = "utf16_encode ?rs"
  have last: "unsplit (take ?limit ?enc) =
      (if ?limit > 0 \<and> 0xD800 \<le> unat (take ?limit ?enc ! (?limit - 1))
          \<and> unat (take ?limit ?enc ! (?limit - 1)) \<le> 0xDBFF
       then take (?limit - 1) ?enc else take ?limit ?enc)" if "length ?enc > ?limit"
  proof (cases "?limit = 0")
    case False
    with that have "take ?limit ?enc \<noteq> []" and len: "length (take ?limit ?enc) = ?limit" by auto
    then have "last (take ?limit ?enc) = take ?limit ?enc ! (?limit - 1)"
      unfolding last_conv_nth [OF \<open>take ?limit ?enc \<noteq> []\<close>] len by simp
    moreover have "butlast (take ?limit ?enc) = take (?limit - 1) ?enc"
      using that by (simp add: butlast_take)
    ultimately show ?thesis
      using False \<open>take ?limit ?enc \<noteq> []\<close> by (simp only: unsplit_def is_high_def) simp
  qed (simp add: unsplit_def)
  define kept where "kept = (if length ?enc > ?limit then unsplit (take ?limit ?enc) else ?enc)"
  have "\<exists>k. kept = utf16_encode (take k ?rs)"
    using unsplit_take_encode [OF runes_of_valid, of ?limit "cleanUIText value"]
    by (cases "length ?enc > ?limit") (auto simp: kept_def intro: exI [of _ "length ?rs"])
  moreover have "length kept \<le> ?limit"
    by (auto simp: kept_def unsplit_def)
  moreover have "kept = ?enc \<or> length destination \<le> length kept + 2"
    by (auto simp: kept_def unsplit_def)
  moreover have "copyUIText destination value = kept @ replicate (length destination - length kept) 0"
    using assms last unfolding copyUIText_def kept_def by (auto simp: Let_def)
  ultimately show ?thesis
    using assms by (cases destination) (auto simp: Let_def less_Suc_eq_le)
qed

text \<open>No line break reaches a native text field.\<close>

lemma utf16_no_newline: "list_all valid_rune rs \<Longrightarrow> 10 \<notin> set rs \<Longrightarrow> 10 \<notin> set (utf16_encode rs)"
proof (induction rs)
  case (Cons r rs)
  then have "valid_rune r" "r \<noteq> 10" by simp_all
  then have "10 \<notin> set (utf16_rune r)"
    by (cases rule: utf16_rune_cases) (auto simp: is_high_def is_low_def)
  with Cons show ?case by simp
qed simp

lemma copyUIText_no_newline: "destination \<noteq> [] \<Longrightarrow> 10 \<notin> set (copyUIText destination v)"
proof -
  assume "destination \<noteq> []"
  from copyUIText_eq [OF this, of v] obtain k n where
    eq: "copyUIText destination v = utf16_encode (take k (runes_of (cleanUIText v))) @ replicate n 0"
    by (auto simp: Let_def)
  have "list_all valid_rune (take k (runes_of (cleanUIText v)))"
    using runes_of_valid by (rule list_all_take)
  moreover have "10 \<notin> set (take k (runes_of (cleanUIText v)))"
    using ui.clean_no_newline(1) by (auto dest: in_set_takeD)
  ultimately show ?thesis unfolding eq using utf16_no_newline by auto
qed

end
