(* ===== verification/Digest.thy ===== *)
theory Digest
  imports Prelude
begin

text \<open>
  The standard-library digests and text encodings the program displays:
  \<open>crypto/sha256\<close> (FIPS 180-4), \<open>base64.RawStdEncoding\<close> and \<open>encoding/hex\<close>.
\<close>

unbundle bit_operations_syntax

section \<open>SHA-256\<close>

text \<open>
  The standard's tables are the first 32 bits of the fractional parts of roots of the first
  primes: cube roots for the rounds, square roots for the initial state. \<open>root_bits k n b r\<close>
  decides the lowest \<open>b\<close> bits of the integer \<open>k\<close>-th root of \<open>n\<close>, given the bits \<open>r\<close> above them.
\<close>

primrec root_bits :: "nat \<Rightarrow> nat \<Rightarrow> nat \<Rightarrow> nat \<Rightarrow> nat" where
  "root_bits k n 0 r = r"
| "root_bits k n (Suc b) r = root_bits k n b (if (r + 2 ^ b) ^ k \<le> n then r + 2 ^ b else r)"

definition small_primes :: "nat list" where
  "small_primes = filter (\<lambda>p. list_all (\<lambda>d. p mod d \<noteq> 0) [2..<p]) [2..<312]"

definition root_fraction :: "nat \<Rightarrow> nat \<Rightarrow> u32" where
  "root_fraction k p = u32_of (root_bits k (p * 2 ^ (32 * k)) 40 0)"

definition sha256_k :: "u32 list" where
  "sha256_k = map (root_fraction 3) small_primes"

definition sha256_init :: "u32 list" where
  "sha256_init = map (root_fraction 2) [2, 3, 5, 7, 11, 13, 17, 19]"

text \<open>The integer root is the root.\<close>

lemma root_bits_floor:
  assumes "r ^ k \<le> n" "n < (r + 2 ^ b) ^ k"
  shows "root_bits k n b r ^ k \<le> n \<and> n < Suc (root_bits k n b r) ^ k"
  using assms
proof (induction b arbitrary: r)
  case (Suc b)
  show ?case
  proof (cases "(r + 2 ^ b) ^ k \<le> n")
    case True
    with Suc.prems have "n < (r + 2 ^ b + 2 ^ b) ^ k" by (simp add: add.assoc mult_2)
    with Suc.IH [of "r + 2 ^ b"] True show ?thesis by simp
  next
    case False
    with Suc.IH [of r] Suc.prems show ?thesis by simp
  qed
qed simp

definition sha256_pad :: "byte list \<Rightarrow> byte list" where
  "sha256_pad m =
     m @ [0x80] @ replicate ((119 - length m mod 64) mod 64) 0
     @ put_be32 (u32_of (8 * length m div 4294967296)) @ put_be32 (u32_of (8 * length m))"

text \<open>The message schedule, kept reversed: the last sixteen words are at the front.\<close>

primrec sha256_expand :: "nat \<Rightarrow> u32 list \<Rightarrow> u32 list" where
  "sha256_expand 0 ws = ws"
| "sha256_expand (Suc n) ws =
     (let w2 = ws ! 1; w15 = ws ! 14;
          s0 = word_rotr 7 w15 XOR word_rotr 18 w15 XOR drop_bit 3 w15;
          s1 = word_rotr 17 w2 XOR word_rotr 19 w2 XOR drop_bit 10 w2
      in sha256_expand n ((s1 + ws ! 6 + s0 + ws ! 15) # ws))"

fun sha256_words :: "byte list \<Rightarrow> u32 list" where
  "sha256_words (a # b # c # d # bs) = be32 [a, b, c, d] # sha256_words bs"
| "sha256_words _ = []"

definition sha256_round :: "u32 list \<Rightarrow> u32 \<times> u32 \<Rightarrow> u32 list" where
  "sha256_round hs kw =
     (let (k, w) = kw; a = hs ! 0; b = hs ! 1; c = hs ! 2; d = hs ! 3;
          e = hs ! 4; f = hs ! 5; g = hs ! 6; h = hs ! 7;
          s1 = word_rotr 6 e XOR word_rotr 11 e XOR word_rotr 25 e;
          ch = (e AND f) XOR (NOT e AND g);
          t1 = h + s1 + ch + k + w;
          s0 = word_rotr 2 a XOR word_rotr 13 a XOR word_rotr 22 a;
          maj = (a AND b) XOR (a AND c) XOR (b AND c);
          t2 = s0 + maj
      in [t1 + t2, a, b, c, d + t1, e, f, g])"

definition sha256_block :: "u32 list \<Rightarrow> byte list \<Rightarrow> u32 list" where
  "sha256_block hs block =
     (let ws = rev (sha256_expand 48 (rev (sha256_words block)))
      in map2 (+) hs (foldl sha256_round hs (zip sha256_k ws)))"

function sha256_blocks :: "u32 list \<Rightarrow> byte list \<Rightarrow> u32 list" where
  "sha256_blocks hs m =
     (if length m < 64 then hs
      else sha256_blocks (sha256_block hs (take 64 m)) (drop 64 m))"
  by pat_completeness auto
termination
  by (relation "measure (\<lambda>(hs, m). length m)") auto

declare sha256_blocks.simps [simp del]

definition sha256 :: "byte list \<Rightarrow> byte list" where
  "sha256 m = concat (map put_be32 (sha256_blocks sha256_init (sha256_pad m)))"

lemma length_sha256_round: "length (sha256_round hs kw) = 8"
  by (simp add: sha256_round_def Let_def split: prod.split)

lemma length_foldl_round: "length hs = 8 \<Longrightarrow> length (foldl sha256_round hs kws) = 8"
  by (induction kws arbitrary: hs) (simp_all add: length_sha256_round)

lemma length_sha256_blocks: "length hs = 8 \<Longrightarrow> length (sha256_blocks hs m) = 8"
proof (induction hs m rule: sha256_blocks.induct)
  case (1 hs m)
  then show ?case
    by (subst sha256_blocks.simps) (simp add: sha256_block_def Let_def length_foldl_round)
qed

lemma length_concat_put_be32: "length (concat (map put_be32 ws)) = 4 * length ws"
  by (induction ws) simp_all

lemma length_sha256 [simp]: "length (sha256 m) = 32"
  by (simp add: sha256_def length_concat_put_be32 length_sha256_blocks sha256_init_def)

section \<open>Base64 without padding\<close>

definition base64_char :: "nat \<Rightarrow> byte" where
  "base64_char n =
     byte_of (if n < 26 then 65 + n else if n < 52 then 71 + n
              else if n < 62 then n - 4 else if n = 62 then 43 else 47)"

fun base64_encode :: "byte list \<Rightarrow> gostr" where
  "base64_encode (a # b # c # bs) =
     (let n = (unat a * 256 + unat b) * 256 + unat c
      in base64_char (n div 262144) # base64_char (n div 4096 mod 64)
         # base64_char (n div 64 mod 64) # base64_char (n mod 64) # base64_encode bs)"
| "base64_encode [a, b] =
     (let n = (unat a * 256 + unat b) * 4
      in [base64_char (n div 4096), base64_char (n div 64 mod 64), base64_char (n mod 64)])"
| "base64_encode [a] =
     (let n = unat a * 16 in [base64_char (n div 64), base64_char (n mod 64)])"
| "base64_encode [] = []"

lemma length_base64_encode: "length (base64_encode bs) = (length bs * 4 + 2) div 3"
  by (induction bs rule: base64_encode.induct) (simp_all add: Let_def)

definition base64_value :: "byte \<Rightarrow> nat" where
  "base64_value ch =
     (let x = unat ch in
      if 97 \<le> x then x - 71 else if 65 \<le> x then x - 65
      else if 48 \<le> x then x + 4 else if x = 43 then 62 else 63)"

fun base64_decode :: "gostr \<Rightarrow> byte list" where
  "base64_decode (p # q # r # s # cs) =
     (let n = ((base64_value p * 64 + base64_value q) * 64 + base64_value r) * 64 + base64_value s
      in byte_of (n div 65536) # byte_of (n div 256) # byte_of n # base64_decode cs)"
| "base64_decode [p, q, r] =
     (let n = ((base64_value p * 64 + base64_value q) * 64 + base64_value r) div 4
      in [byte_of (n div 256), byte_of n])"
| "base64_decode [p, q] = [byte_of ((base64_value p * 64 + base64_value q) div 16)]"
| "base64_decode _ = []"

lemma base64_value_char [simp]: "n < 64 \<Longrightarrow> base64_value (base64_char n) = n"
proof -
  assume "n < 64"
  then consider "n < 26" | "26 \<le> n" "n < 52" | "52 \<le> n" "n < 62" | "n = 62" | "n = 63"
    by linarith
  then show ?thesis
    by cases (auto simp: base64_value_def base64_char_def Let_def)
qed

lemma base64_sextets:
  assumes "n < 16777216"
  shows "((base64_value (base64_char (n div 262144)) * 64 + base64_value (base64_char (n div 4096 mod 64))) * 64
          + base64_value (base64_char (n div 64 mod 64))) * 64 + base64_value (base64_char (n mod 64)) = n"
proof -
  have "n div 262144 < 64" using assms by (intro less_mult_imp_div_less) simp
  moreover have "n div 262144 = n div 64 div 64 div 64" "n div 4096 = n div 64 div 64"
    by (simp_all only: div_mult2_eq [symmetric]) simp_all
  then have "((n div 262144 * 64 + n div 4096 mod 64) * 64 + n div 64 mod 64) * 64 + n mod 64 = n"
    by (simp only: div_mult_mod_eq)
  ultimately show ?thesis by simp
qed

lemma base64_octets:
  assumes "n = (unat (a :: byte) * 256 + unat (b :: byte)) * 256 + unat (c :: byte)"
  shows "byte_of (n div 65536) = a" "byte_of (n div 256) = b" "byte_of n = c" "n < 16777216"
proof -
  have ab: "n div 256 = unat a * 256 + unat b" and "byte_of n = c"
    using byte_digit [OF assms] by simp_all
  moreover have "n div 65536 = unat a" "byte_of (n div 256) = b"
    using byte_digit [OF ab] by (simp_all only: div_chain(1))
  ultimately show "byte_of (n div 65536) = a" "byte_of (n div 256) = b" "byte_of n = c"
    by simp_all
  have "n = unat a * 65536 + unat b * 256 + unat c" using assms by simp
  also have "\<dots> < 16777216"
    using unat_byte_less [of a] unat_byte_less [of b] unat_byte_less [of c] by linarith
  finally show "n < 16777216" .
qed

lemma base64_decode_encode: "base64_decode (base64_encode bs) = bs"
proof (induction bs rule: base64_encode.induct)
  case (1 a b c bs)
  define n where "n = (unat a * 256 + unat b) * 256 + unat c"
  note octets = base64_octets [OF n_def]
  show ?case
    unfolding base64_encode.simps Let_def n_def [symmetric] base64_decode.simps
      base64_sextets [OF octets(4)] octets(1-3) by (simp only: "1.IH")
next
  case (2 a b)
  define m where "m = unat a * 256 + unat b"
  have m: "byte_of (m div 256) = a" "byte_of m = b"
    using byte_digit [OF m_def] by simp_all
  have "m < 65536"
    unfolding m_def using unat_byte_less [of a] unat_byte_less [of b] by linarith
  then have le: "m * 4 div 4096 < 64" by (intro less_mult_imp_div_less) simp
  have "m * 4 div 4096 = m * 4 div 64 div 64" by (simp only: div_mult2_eq [symmetric]) simp
  then have join: "(m * 4 div 4096 * 64 + m * 4 div 64 mod 64) * 64 + m * 4 mod 64 = m * 4"
    by (simp only: div_mult_mod_eq)
  show ?case
    using le by (simp only: base64_encode.simps base64_decode.simps Let_def m_def [symmetric]
        base64_value_char join mod_less_divisor) (simp add: m join)
next
  case (3 a)
  let ?n = "unat a * 16"
  have "?n div 64 < 64"
    by (rule less_mult_imp_div_less) (use unat_byte_less [of a] in simp)
  then show ?case
    using div_mult_mod_eq [of ?n 64]
    by (simp only: base64_encode.simps base64_decode.simps Let_def) simp
qed simp

section \<open>Hexadecimal\<close>

definition hex_digit :: "nat \<Rightarrow> byte" where
  "hex_digit n = byte_of (if n < 10 then 48 + n else 87 + n)"

definition hex_encode :: "byte list \<Rightarrow> gostr" where
  "hex_encode bs = concat (map (\<lambda>b. [hex_digit (unat b div 16), hex_digit (unat b mod 16)]) bs)"

lemma length_hex_encode [simp]: "length (hex_encode bs) = 2 * length bs"
  by (induction bs) (simp_all add: hex_encode_def)

end
