(* ===== verification/Keys.thy ===== *)
theory Keys
  imports Wire Sanitize Digest
begin

text \<open>
  Key lists and sign requests (\<^verbatim>\<open>openssh/keys.go\<close>): \<open>parseKeys\<close>, \<open>ParseSignRequest\<close>,
  \<open>userauthUsername\<close>, \<open>publicKeyType\<close> and \<open>fingerprint\<close>, each specified against the encoder
  of the message it reads.
\<close>

section \<open>Data\<close>

record Key =
  key_type :: gostr
  key_fingerprint :: gostr
  key_comment :: gostr

record SignRequest =
  sign_key_type :: gostr
  sign_fingerprint :: gostr
  sign_username :: gostr

datatype key_error =
    Invalid_key_list frame_error
  | Agent_refused
  | Unexpected_reply
  | Invalid_key_count
  | Truncated_public_key
  | Truncated_key_comment
  | Malformed_key_type
  | Trailing_data

definition agentRequestIdentities :: byte where "agentRequestIdentities = 11"
definition agentIdentitiesAnswer :: byte where "agentIdentitiesAnswer = 12"
definition agentSignRequest :: byte where "agentSignRequest = 13"

section \<open>Public-key blobs\<close>

definition publicKeyType :: "byte list \<Rightarrow> gostr option" where
  "publicKeyType blob =
     (case takeString blob of
        None \<Rightarrow> None
      | Some (keyType, rest) \<Rightarrow>
          if keyType = [] \<or> length keyType > 128 \<or> rest = [] then None
          else if list_ex (\<lambda>b. b < 33 \<or> b > 126) keyType then None
          else Some keyType)"

definition fingerprint :: "byte list \<Rightarrow> gostr" where
  "fingerprint blob = lit ''SHA256:'' @ base64_encode (sha256 blob)"

lemma length_fingerprint: "length (fingerprint blob) = 50"
  by (simp add: fingerprint_def length_base64_encode)

text \<open>The displayed fingerprint determines the digest it shows.\<close>

lemma fingerprint_digest: "base64_decode (drop 7 (fingerprint blob)) = sha256 blob"
  by (simp add: fingerprint_def base64_decode_encode)

lemma publicKeyType_iff:
  "publicKeyType blob = Some t \<longleftrightarrow>
     (\<exists>rest. blob = put_string t @ rest \<and> rest \<noteq> [] \<and> t \<noteq> [] \<and> length t \<le> 128
        \<and> list_all (\<lambda>b. 33 \<le> b \<and> b \<le> 126) t)"
  (is "?l \<longleftrightarrow> ?r")
proof
  assume ?l
  then show ?r
    by (auto simp: publicKeyType_def not_less list_all_iff list_ex_iff string_codec.dec_iff
        split: option.splits if_splits)
next
  assume ?r
  then obtain rest where rest: "blob = put_string t @ rest" "rest \<noteq> []" "t \<noteq> []" "length t \<le> 128"
    "list_all (\<lambda>b. 33 \<le> b \<and> b \<le> 126) t" by blast
  then have "takeString blob = Some (t, rest)"
    by (simp add: string_codec.dec_enc string_ok_def)
  with rest show ?l by (simp add: publicKeyType_def list_all_iff list_ex_iff) (meson not_le)
qed

section \<open>Key lists\<close>

text \<open>The loop \<open>for range count\<close>; the keys found so far are the result of the prefix.\<close>

primrec parse_entries :: "nat \<Rightarrow> byte list \<Rightarrow> key_error + (Key list \<times> byte list)" where
  "parse_entries 0 remaining = Inr ([], remaining)"
| "parse_entries (Suc n) remaining =
     (case takeString remaining of
        None \<Rightarrow> Inl Truncated_public_key
      | Some (blob, remaining1) \<Rightarrow>
          (case takeString remaining1 of
             None \<Rightarrow> Inl Truncated_key_comment
           | Some (comment, remaining2) \<Rightarrow>
               (case publicKeyType blob of
                  None \<Rightarrow> Inl Malformed_key_type
                | Some keyType \<Rightarrow>
                    (case parse_entries n remaining2 of
                       Inl e \<Rightarrow> Inl e
                     | Inr (keys, rest) \<Rightarrow>
                         Inr (\<lparr>key_type = keyType, key_fingerprint = fingerprint blob,
                               key_comment = displayText comment 1024\<rparr> # keys, rest)))))"

definition parseKeys :: "byte list \<Rightarrow> key_error + Key list" where
  "parseKeys reply =
     (case ValidateResponse reply of
        Some e \<Rightarrow> Inl (Invalid_key_list e)
      | None \<Rightarrow>
          if reply ! 4 = SSH_AGENT_FAIL then Inl Agent_refused
          else if reply ! 4 \<noteq> agentIdentitiesAnswer \<or> length reply < 9 then Inl Unexpected_reply
          else let count = be32 (take 4 (drop 5 reply)); remaining = drop 9 reply in
            if unat count > length remaining div 8 then Inl Invalid_key_count
            else case parse_entries (unat count) remaining of
                   Inl e \<Rightarrow> Inl e
                 | Inr (keys, rest) \<Rightarrow> if rest \<noteq> [] then Inl Trailing_data else Inr keys)"

text \<open>
  The specification: a key list is a count and that many pairs of SSH strings, the public
  key blob and the comment.
\<close>

definition put_entry :: "byte list \<times> byte list \<Rightarrow> byte list" where
  "put_entry = (\<lambda>(blob, comment). put_string blob @ put_string comment)"

definition entry_ok :: "byte list \<times> byte list \<Rightarrow> bool" where
  "entry_ok = (\<lambda>(blob, comment). string_ok blob \<and> string_ok comment \<and> publicKeyType blob \<noteq> None)"

definition key_of :: "byte list \<times> byte list \<Rightarrow> Key" where
  "key_of = (\<lambda>(blob, comment).
     \<lparr>key_type = the (publicKeyType blob), key_fingerprint = fingerprint blob,
      key_comment = displayText comment 1024\<rparr>)"

definition identities_payload :: "(byte list \<times> byte list) list \<Rightarrow> byte list" where
  "identities_payload es =
     agentIdentitiesAnswer # put_be32 (u32_of (length es)) @ concat (map put_entry es)"

interpretation entry_codec: codec_pair put_string takeString string_ok put_string takeString string_ok
  by unfold_locales

lemmas entries_iff = entry_codec.both.dec_many_iff [folded put_entry_def]

lemma parse_entries_Suc_iff:
  "parse_entries (Suc n) bs = Inr (ks, rest) \<longleftrightarrow>
     (\<exists>blob r1 comment r2 ks'. takeString bs = Some (blob, r1) \<and> takeString r1 = Some (comment, r2)
        \<and> publicKeyType blob \<noteq> None \<and> parse_entries n r2 = Inr (ks', rest)
        \<and> ks = key_of (blob, comment) # ks')"
  by (auto simp: key_of_def split: option.splits sum.splits)

lemma dec_many_Suc_iff:
  "dec_many dec (Suc n) bs = Some (es, rest) \<longleftrightarrow>
     (\<exists>e bs' es'. dec bs = Some (e, bs') \<and> dec_many dec n bs' = Some (es', rest) \<and> es = e # es')"
  by (auto split: option.splits)

lemma dec_pair_iff:
  "dec_pair dec1 dec2 bs = Some ((x, y), rest) \<longleftrightarrow>
     (\<exists>bs'. dec1 bs = Some (x, bs') \<and> dec2 bs' = Some (y, rest))"
  by (auto simp: dec_pair_def split: option.splits)

lemma parse_entries_iff:
  "parse_entries n bs = Inr (ks, rest) \<longleftrightarrow>
     (\<exists>es. dec_many (dec_pair takeString takeString) n bs = Some (es, rest)
        \<and> list_all (\<lambda>(blob, _). publicKeyType blob \<noteq> None) es \<and> ks = map key_of es)"
proof (induction n arbitrary: bs ks)
  case 0
  then show ?case by auto
next
  case (Suc n)
  show ?case
    unfolding parse_entries_Suc_iff dec_many_Suc_iff Suc.IH
    by (fastforce simp: dec_pair_iff)
qed

lemma parse_entries_spec:
  "parse_entries n bs = Inr (ks, rest) \<longleftrightarrow>
     (\<exists>es. length es = n \<and> list_all entry_ok es \<and> bs = concat (map put_entry es) @ rest
        \<and> ks = map key_of es)"
proof -
  have "list_all (\<lambda>(x, y). string_ok x \<and> string_ok y) es
      \<and> list_all (\<lambda>(blob, _). publicKeyType blob \<noteq> None) es \<longleftrightarrow> list_all entry_ok es" for es
    by (auto simp: list_all_iff entry_ok_def)
  then show ?thesis unfolding parse_entries_iff entries_iff by blast
qed

lemma length_put_entries: "8 * length es \<le> length (concat (map put_entry es))"
  by (induction es) (auto simp: put_entry_def)

lemma key_list_count: "length (identities_payload es) \<le> 262144 \<Longrightarrow> length es < 32768"
  using length_put_entries [of es] by (simp add: identities_payload_def)

lemma agent_answer_distinct [simp]: "agentIdentitiesAnswer \<noteq> SSH_AGENT_FAIL"
  by (simp add: agentIdentitiesAnswer_def SSH_AGENT_FAIL_def)

lemma drop_frame_add: "drop (4 + n) (frame_of p) = drop n p"
  by (simp flip: drop_drop [of n 4] add: add.commute)

text \<open>A frame accepted as a reply that carries the identities answer.\<close>

lemma parseKeys_frame:
  assumes "p \<noteq> []" "length p \<le> 262144"
  shows "parseKeys (frame_of p) = Inr ks \<longleftrightarrow>
    hd p = agentIdentitiesAnswer \<and> 5 \<le> length p \<and>
    (\<exists>n. unat (be32 (take 4 (tl p))) = n \<and> n \<le> length (drop 5 p) div 8
       \<and> parse_entries n (drop 5 p) = Inr (ks, []))"
proof -
  have drops: "drop 5 (frame_of p) = tl p" "drop 9 (frame_of p) = drop 5 p"
    using drop_frame_add [of 1 p] drop_frame_add [of 5 p] by (simp_all add: drop_Suc)
  have nth: "frame_of p ! 4 = hd p" by (rule frame_of_nth4) fact
  show ?thesis
  proof (cases "ValidateResponse (frame_of p)")
    case None
    then show ?thesis
      by (auto simp: parseKeys_def drops nth Let_def not_less split: sum.splits if_splits)
  next
    case (Some e)
    have "ValidateResponse (frame_of p) = None" if "hd p = agentIdentitiesAnswer"
      unfolding ValidateResponse_iff by (rule exI [of _ p]) (use assms that in simp)
    with Some have "hd p \<noteq> agentIdentitiesAnswer" by auto
    with Some show ?thesis by (simp add: parseKeys_def)
  qed
qed

lemma parseKeys_Inr_frame:
  assumes "parseKeys reply = Inr ks"
  obtains p where "p \<noteq> []" "length p \<le> 262144" "reply = frame_of p"
  using assms by (auto simp: parseKeys_def ValidateResponse_iff split: option.splits)

lemma parseKeys_spec:
  "parseKeys reply = Inr ks \<longleftrightarrow>
     (\<exists>es. list_all entry_ok es \<and> length (identities_payload es) \<le> 262144
        \<and> reply = frame_of (identities_payload es) \<and> ks = map key_of es)"
  (is "?l \<longleftrightarrow> ?r")
proof
  assume l: ?l
  then obtain p where p: "p \<noteq> []" "length p \<le> 262144" and reply: "reply = frame_of p"
    by (rule parseKeys_Inr_frame)
  from l parseKeys_frame [OF p, of ks] obtain n where
    n: "unat (be32 (take 4 (tl p))) = n" and hd: "hd p = agentIdentitiesAnswer" and len: "5 \<le> length p"
    and entries: "parse_entries n (drop 5 p) = Inr (ks, [])" unfolding reply by blast
  from entries obtain es where es: "length es = n" "list_all entry_ok es"
    "drop 5 p = concat (map put_entry es)" "ks = map key_of es"
    by (auto simp: parse_entries_spec)
  have "take 4 (tl p) = put_be32 (be32 (take 4 (tl p)))"
    using put_be32_be32 [of "take 4 (tl p)"] len by simp
  also have "be32 (take 4 (tl p)) = u32_of (length es)"
    using n es(1) by (metis u32_of_unat)
  finally have "p = identities_payload es"
    using p(1) hd es(3) append_take_drop_id [of 4 "tl p"]
    by (cases p) (simp_all add: identities_payload_def)
  with es p reply show ?r by auto
next
  assume ?r
  then obtain es where es: "list_all entry_ok es" and len: "length (identities_payload es) \<le> 262144"
    and reply: "reply = frame_of (identities_payload es)" and ks: "ks = map key_of es" by blast
  let ?p = "identities_payload es"
  have n: "unat (be32 (take 4 (tl ?p))) = length es"
    using key_list_count [OF len] by (simp add: identities_payload_def)
  have d: "drop 5 ?p = concat (map put_entry es)"
    by (simp add: identities_payload_def drop_Cons')
  have ne: "?p \<noteq> []" by (simp add: identities_payload_def)
  have "length es \<le> length (drop 5 ?p) div 8"
    using length_put_entries [of es] d by (simp add: less_eq_div_iff_mult_less_eq mult.commute)
  moreover have "parse_entries (length es) (drop 5 ?p) = Inr (ks, [])"
    unfolding parse_entries_spec using es ks d by auto
  ultimately show ?l
    using parseKeys_frame [OF ne len, of ks] n
    unfolding reply by (auto simp: identities_payload_def)
qed

text \<open>A truncated list never parses, even when its frame is rewritten to match.\<close>

lemma parseKeys_truncated_aux:
  assumes "list_all entry_ok es" and len: "length (identities_payload es) \<le> 262144"
    and i: "i < length (identities_payload es)"
  shows "parseKeys (frame_of (take i (identities_payload es))) \<noteq> Inr ks"
proof
  let ?p = "identities_payload es"
  assume "parseKeys (frame_of (take i ?p)) = Inr ks"
  then obtain es' where es': "list_all entry_ok es'" "frame_of (take i ?p) = frame_of (identities_payload es')"
    "length (identities_payload es') \<le> 262144" by (auto simp: parseKeys_spec)
  then have p: "take i ?p = identities_payload es'" by (metis drop_frame_of)
  define t where "t = drop i ?p"
  have t: "t \<noteq> []" using i by (simp add: t_def)
  have "?p = identities_payload es' @ t" using append_take_drop_id [of i ?p] p by (simp add: t_def)
  then have eq: "put_be32 (u32_of (length es)) @ concat (map put_entry es) =
      put_be32 (u32_of (length es')) @ concat (map put_entry es') @ t"
    by (simp add: identities_payload_def)
  then have "u32_of (length es) = u32_of (length es')"
    and conc: "concat (map put_entry es) = concat (map put_entry es') @ t"
    using be32_codec.enc_prefix_free [OF TrueI TrueI eq] by simp_all
  then have n: "length es = length es'"
    using key_list_count [OF len] key_list_count [OF es'(3)] by (simp add: u32_of_eq_iff)
  have "parse_entries (length es) (concat (map put_entry es)) = Inr (map key_of es, [])"
    using assms(1) by (auto simp: parse_entries_spec)
  moreover have "parse_entries (length es) (concat (map put_entry es)) = Inr (map key_of es', t)"
    unfolding parse_entries_spec using es'(1) n conc by auto
  ultimately show False using t by simp
qed

section \<open>Sign requests\<close>

text \<open>
  \<open>userauthUsername\<close>: each \<open>takeString\<close> advances \<open>data\<close>; any mismatch returns the empty
  string.
\<close>

definition userauthUsername :: "byte list \<Rightarrow> byte list \<Rightarrow> gostr" where
  "userauthUsername data signingKey =
     (case takeString data of None \<Rightarrow> [] | Some (session, data) \<Rightarrow>
      if session = [] \<or> data = [] \<or> hd data \<noteq> 50 then []
      else case takeString (tl data) of None \<Rightarrow> [] | Some (username, data) \<Rightarrow>
      if username = [] then []
      else case takeString data of None \<Rightarrow> [] | Some (service, data) \<Rightarrow>
      if service \<noteq> lit ''ssh-connection'' then []
      else case takeString data of None \<Rightarrow> [] | Some (method_name, data) \<Rightarrow>
      let hostbound = (method_name = lit ''publickey-hostbound-v00@openssh.com'') in
      if (method_name \<noteq> lit ''publickey'' \<and> \<not> hostbound) \<or> data = [] \<or> hd data \<noteq> 1 then []
      else case takeString (tl data) of None \<Rightarrow> [] | Some (algorithm, data) \<Rightarrow>
      if algorithm = [] then []
      else case takeString data of None \<Rightarrow> [] | Some (key, data) \<Rightarrow>
      if key \<noteq> signingKey then []
      else if hostbound then
        (case takeString data of None \<Rightarrow> [] | Some (hostKey, data) \<Rightarrow>
         if hostKey = [] then [] else if data \<noteq> [] then [] else displayText username 256)
      else if data \<noteq> [] then [] else displayText username 256)"

definition ParseSignRequest :: "byte list \<Rightarrow> SignRequest option" where
  "ParseSignRequest frame =
     (if ValidateRequest frame \<noteq> None \<or> frame ! 4 \<noteq> agentSignRequest then None
      else case takeString (drop 5 frame) of None \<Rightarrow> None | Some (blob, remaining) \<Rightarrow>
      case takeString remaining of None \<Rightarrow> None | Some (data, remaining) \<Rightarrow>
      if length remaining \<noteq> 4 then None
      else case publicKeyType blob of None \<Rightarrow> None | Some keyType \<Rightarrow>
      Some \<lparr>sign_key_type = keyType, sign_fingerprint = fingerprint blob,
            sign_username = userauthUsername data blob\<rparr>)"

text \<open>The sign request and the RFC 4252 user-authentication payload, as encoders.\<close>

definition sign_payload :: "byte list \<Rightarrow> byte list \<Rightarrow> byte list \<Rightarrow> byte list" where
  "sign_payload blob data flags = agentSignRequest # put_string blob @ put_string data @ flags"

definition userauth_fields ::
  "byte list \<Rightarrow> byte list \<Rightarrow> byte list \<Rightarrow> byte list \<Rightarrow> byte list \<Rightarrow> byte list \<Rightarrow> byte list" where
  "userauth_fields session username method_name algorithm key tail =
     put_string session @ [50] @ put_string username @ put_string (lit ''ssh-connection'')
     @ put_string method_name @ [1] @ put_string algorithm @ put_string key @ tail"

inductive userauth_payload :: "byte list \<Rightarrow> byte list \<Rightarrow> byte list \<Rightarrow> bool" where
  plain: "session \<noteq> [] \<Longrightarrow> username \<noteq> [] \<Longrightarrow> algorithm \<noteq> [] \<Longrightarrow>
     list_all string_ok [session, username, algorithm, key] \<Longrightarrow>
     userauth_payload
       (userauth_fields session username (lit ''publickey'') algorithm key []) key username"
| hostbound: "session \<noteq> [] \<Longrightarrow> username \<noteq> [] \<Longrightarrow> algorithm \<noteq> [] \<Longrightarrow> hostKey \<noteq> [] \<Longrightarrow>
     list_all string_ok [session, username, algorithm, key, hostKey] \<Longrightarrow>
     userauth_payload
       (userauth_fields session username (lit ''publickey-hostbound-v00@openssh.com'')
          algorithm key (put_string hostKey)) key username"

lemma takeString_put_Cons: "string_ok s \<Longrightarrow> takeString (put_string s @ rest) = Some (s, rest)"
  by (rule string_codec.dec_enc)

lemma string_ok_short [simp]: "length s < 4294967296 \<Longrightarrow> string_ok s"
  by (simp add: string_ok_def)

lemma methods_differ [simp]:
  "lit ''publickey'' \<noteq> lit ''publickey-hostbound-v00@openssh.com''"
proof
  assume "lit ''publickey'' = lit ''publickey-hostbound-v00@openssh.com''"
  then have "length (lit ''publickey'') = length (lit ''publickey-hostbound-v00@openssh.com'')"
    by (rule arg_cong)
  then show False by simp
qed

lemma userauthUsername_complete:
  "userauth_payload data key username \<Longrightarrow> userauthUsername data key = displayText username 256"
proof (induction rule: userauth_payload.induct)
  case (plain session username algorithm key)
  then show ?case
    using takeString_put_Cons [of key "[]"]
    by (simp add: userauthUsername_def userauth_fields_def takeString_put_Cons Let_def)
next
  case (hostbound session username algorithm hostKey key)
  then show ?case
    using takeString_put_Cons [of hostKey "[]"]
    by (simp add: userauthUsername_def userauth_fields_def takeString_put_Cons Let_def
        methods_differ [THEN not_sym])
qed

text \<open>What a non-empty user name says about the signed data, step by step.\<close>

lemma hd_tl_split: "xs \<noteq> [] \<Longrightarrow> hd xs = c \<Longrightarrow> xs = c # tl xs"
  by (cases xs) simp_all

lemma userauthUsername_sound:
  assumes u: "userauthUsername data key \<noteq> []"
  shows "\<exists>username. userauth_payload data key username"
proof -
  obtain session d1 where 1: "takeString data = Some (session, d1)" "session \<noteq> []" "d1 \<noteq> []" "hd d1 = 50"
    using u by (auto simp: userauthUsername_def split: option.splits if_splits)
  obtain username d2 where 2: "takeString (tl d1) = Some (username, d2)" "username \<noteq> []"
    using u 1 by (auto simp: userauthUsername_def split: option.splits if_splits)
  obtain d3 where 3: "takeString d2 = Some (lit ''ssh-connection'', d3)"
    using u 1 2 by (auto simp: userauthUsername_def split: option.splits if_splits)
  obtain m d4 where 4: "takeString d3 = Some (m, d4)" "d4 \<noteq> []" "hd d4 = 1"
      "m = lit ''publickey'' \<or> m = lit ''publickey-hostbound-v00@openssh.com''"
    using u 1 2 3 by (auto simp: userauthUsername_def Let_def split: option.splits if_splits)
  obtain algorithm d5 where 5: "takeString (tl d4) = Some (algorithm, d5)" "algorithm \<noteq> []"
    using u 1 2 3 4 by (auto simp: userauthUsername_def Let_def split: option.splits if_splits)
  obtain d6 where 6: "takeString d5 = Some (key, d6)"
    using u 1 2 3 4 5 by (auto simp: userauthUsername_def Let_def split: option.splits if_splits)
  note cons = hd_tl_split [OF 1(3,4)] hd_tl_split [OF 4(2,3)]
  note sound = 1(1) [THEN string_codec.dec_sound] 2(1) [THEN string_codec.dec_sound]
    3 [THEN string_codec.dec_sound] 4(1) [THEN string_codec.dec_sound]
    5(1) [THEN string_codec.dec_sound] 6 [THEN string_codec.dec_sound]
  have data: "data = userauth_fields session username m algorithm key d6"
    using sound cons unfolding userauth_fields_def by (metis append_Cons append_Nil)
  show ?thesis
  proof (cases "m = lit ''publickey''")
    case True
    have "d6 = []"
      using u 1 2 3 4 5 6 True by (auto simp: userauthUsername_def Let_def split: option.splits if_splits)
    have "userauth_payload data key username"
      unfolding data True \<open>d6 = []\<close>
      by (rule userauth_payload.plain) (simp_all only: 1 2 5 sound list.pred_inject simp_thms)
    then show ?thesis ..
  next
    case False
    with 4(4) have m: "m = lit ''publickey-hostbound-v00@openssh.com''" by simp
    obtain hostKey where 7: "takeString d6 = Some (hostKey, [])" "hostKey \<noteq> []"
      using u 1 2 3 4 5 6 m by (auto simp: userauthUsername_def Let_def split: option.splits if_splits)
    from 7(1) have "string_ok hostKey" "d6 = put_string hostKey"
      using string_codec.dec_sound by fastforce+
    then have "userauth_payload data key username"
      unfolding data m \<open>d6 = put_string hostKey\<close>
      by (intro userauth_payload.hostbound) (simp_all only: 1 2 5 7 sound list.pred_inject simp_thms)
    then show ?thesis ..
  qed
qed

lemma userauthUsername_spec:
  "userauthUsername data key = u \<and> u \<noteq> [] \<longleftrightarrow>
     (\<exists>username. userauth_payload data key username \<and> u = displayText username 256)"
proof -
  have "displayText username 256 \<noteq> []" if "userauth_payload data key username" for username
    using that display.clean_nonempty [of username 256] by (auto elim: userauth_payload.cases)
  then show ?thesis
    using userauthUsername_sound [of data key] userauthUsername_complete [of data key] by metis
qed

lemma ParseSignRequest_spec:
  "ParseSignRequest frame = Some s \<longleftrightarrow>
     (\<exists>blob data flags. string_ok blob \<and> string_ok data \<and> length flags = 4
        \<and> length (sign_payload blob data flags) \<le> 16379
        \<and> frame = frame_of (sign_payload blob data flags)
        \<and> publicKeyType blob = Some (sign_key_type s)
        \<and> sign_fingerprint s = fingerprint blob
        \<and> sign_username s = userauthUsername data blob)"
  (is "?l \<longleftrightarrow> ?r")
proof
  assume l: ?l
  then obtain p where p: "p \<noteq> []" "length p \<le> 16379" and frame: "frame = frame_of p"
    by (auto simp: ParseSignRequest_def ValidateRequest_iff split: if_splits)
  have tl: "drop 5 frame = tl p" using drop_frame_add [of 1 p] by (simp add: frame drop_Suc)
  have hd: "hd p = agentSignRequest"
    using l frame_of_nth4 [OF p(1)] by (auto simp: ParseSignRequest_def frame split: if_splits)
  obtain blob data r flags where
    takes: "takeString (tl p) = Some (blob, r)" "takeString r = Some (data, flags)" and "length flags = 4"
    and s: "publicKeyType blob = Some (sign_key_type s)" "sign_fingerprint s = fingerprint blob"
      "sign_username s = userauthUsername data blob"
    using l unfolding ParseSignRequest_def tl by (auto split: option.splits if_splits)
  moreover have "p = sign_payload blob data flags"
    using takes [THEN string_codec.dec_sound] hd_tl_split [OF p(1) hd] by (simp add: sign_payload_def)
  ultimately show ?r
    using p frame takes [THEN string_codec.dec_sound] by auto
next
  assume ?r
  then obtain blob data flags where r: "string_ok blob" "string_ok data" "length flags = 4"
    "length (sign_payload blob data flags) \<le> 16379" "frame = frame_of (sign_payload blob data flags)"
    "publicKeyType blob = Some (sign_key_type s)" "sign_fingerprint s = fingerprint blob"
    "sign_username s = userauthUsername data blob" by blast
  let ?p = "sign_payload blob data flags"
  have ne: "?p \<noteq> []" and hd: "hd ?p = agentSignRequest" by (simp_all add: sign_payload_def)
  have tl: "drop 5 frame = put_string blob @ put_string data @ flags"
    using drop_frame_add [of 1 ?p] r(5) by (simp add: sign_payload_def)
  have "ValidateRequest frame = None"
    unfolding ValidateRequest_iff using r(4,5) ne by blast
  moreover have "frame ! 4 = agentSignRequest"
    using frame_of_nth4 [OF ne] hd r(5) by simp
  ultimately show ?l
    using r(1-3,6-8) unfolding ParseSignRequest_def tl by (simp add: takeString_put_Cons)
qed

end
