(* ===== verification/GoStrings.thy ===== *)
theory GoStrings
  imports Sanitize
begin

text \<open>
  The functions of Go's \<open>strings\<close>, \<open>strconv\<close> and \<open>net\<close> packages that the program calls on
  names, arguments and addresses. Where Go consults Unicode case tables and the program
  compares the result with ASCII text only, the model keeps the entries of the tables that
  can produce ASCII: every other rune maps to a non-ASCII rune, which no such comparison
  tells from the rune itself.
\<close>

section \<open>Case\<close>

text \<open>\<open>unicode.ToLower\<close>: U+0130 maps to \<open>i\<close> and the Kelvin sign U+212A to \<open>k\<close>.\<close>

definition rune_lower :: "rune \<Rightarrow> rune" where
  "rune_lower r =
     (if 0x41 \<le> r \<and> r \<le> 0x5A then r + 0x20
      else if r = 0x130 then 0x69 else if r = 0x212A then 0x6B else r)"

definition ToLower :: "gostr \<Rightarrow> gostr" where
  "ToLower s = encode_runes (map rune_lower (runes_of s))"

text \<open>
  \<open>strings.EqualFold\<close> compares simple-folding orbits; the orbits that hold an ASCII letter
  are the pairs of cases with U+017F added to \<open>s\<close> and U+212A to \<open>k\<close>.
\<close>

definition rune_fold :: "rune \<Rightarrow> rune" where
  "rune_fold r =
     (if 0x41 \<le> r \<and> r \<le> 0x5A then r + 0x20
      else if r = 0x17F then 0x73 else if r = 0x212A then 0x6B else r)"

definition EqualFold :: "gostr \<Rightarrow> gostr \<Rightarrow> bool" where
  "EqualFold s t \<longleftrightarrow> map rune_fold (runes_of s) = map rune_fold (runes_of t)"

text \<open>How many bytes a rune was decoded from: one if it is ASCII, two or more otherwise.\<close>

lemma next_multi_bounds: "next_multi x bs = Some (r, rest) \<Longrightarrow> 128 \<le> r"
  by (auto simp: next_multi_def in_range_def second_lo_def split: if_splits list.splits)

lemma next_rune_width:
  assumes "next_rune bs = Some (r, rest)"
  shows "r < 128 \<Longrightarrow> length bs = Suc (length rest)"
    and "128 \<le> r \<Longrightarrow> r \<noteq> RuneError \<Longrightarrow> length rest + 2 \<le> length bs"
  using assms by (cases bs; force dest: next_multi_bounds next_multi_shorter split: if_splits option.splits)+

lemma length_runes:
  "length (runes_of bs) + length (filter (\<lambda>r. 128 \<le> r \<and> r \<noteq> RuneError) (runes_of bs)) \<le> length bs
   \<and> (list_all (\<lambda>r. r < 128) (runes_of bs) \<longrightarrow> length bs = length (runes_of bs))"
proof (induction bs rule: runes_of.induct)
  case (1 bs)
  show ?case
  proof (cases "next_rune bs")
    case None
    then show ?thesis by simp
  next
    case (Some p)
    then obtain r rest where n: "next_rune bs = Some (r, rest)" by (cases p) auto
    show ?thesis
      using "1.IH" [OF n refl] next_rune_width [OF n] next_rune_shorter [OF n]
      by (cases "r < 128"; cases "r = RuneError") (auto simp: runes_of_next [OF n])
  qed
qed

lemma encode_rune_nonascii: "128 \<le> r \<Longrightarrow> \<exists>b bs. encode_rune r = b # bs \<and> 128 \<le> unat b"
proof -
  assume r: "128 \<le> r"
  consider "r < 0x800" | "0x800 \<le> r" "r < 0x10000" | "0x10000 \<le> r" "r \<le> 0x10FFFF" | "0x10FFFF < r" by linarith
  then show ?thesis
  proof cases
    case 1
    then have "r div 64 < 32" by (simp add: less_mult_imp_div_less)
    with 1 r show ?thesis by (simp add: encode_rune_def)
  next
    case 2
    then have "r div 4096 < 16" by (simp add: less_mult_imp_div_less)
    with 2 show ?thesis by (simp add: encode_rune_def)
  next
    case 3
    then have "r div 262144 < 5" by (simp add: less_mult_imp_div_less)
    with 3 show ?thesis by (simp add: encode_rune_def)
  next
    case 4
    then show ?thesis by (simp add: encode_rune_def)
  qed
qed

text \<open>An ASCII prefix of encoded runes is a prefix of the runes.\<close>

lemma prefix_encode_runes:
  "list_all (\<lambda>b. unat b < 128) pre \<Longrightarrow>
     prefix pre (encode_runes rs) \<longleftrightarrow> prefix (map unat pre) rs"
proof (induction pre arbitrary: rs)
  case (Cons b pre)
  show ?case
  proof (cases rs)
    case Nil
    then show ?thesis by simp
  next
    case (Cons r rs')
    show ?thesis
    proof (cases "r < 128")
      case True
      then have "encode_rune r = [byte_of r]" "unat (byte_of r) = r" by (simp_all add: encode_rune_def)
      moreover have "b = byte_of r \<longleftrightarrow> unat b = r" using calculation(2) by (metis word_unat_eq_iff)
      ultimately show ?thesis
        using Cons.IH [of rs'] Cons.prems \<open>rs = r # rs'\<close> by simp
    next
      case False
      then obtain h t where "encode_rune r = h # t" "128 \<le> unat h" using encode_rune_nonascii [of r] by auto
      then show ?thesis using False Cons.prems \<open>rs = r # rs'\<close> by auto
    qed
  qed
qed simp

lemma prefix_take_iff: "prefix xs ys \<longleftrightarrow> take (length xs) ys = xs"
  by (metis append_eq_conv_conj prefix_def take_is_prefix)

section \<open>Searching and splitting\<close>

text \<open>
  \<open>strings.Contains\<close> is the library's \<open>sublist\<close>, \<open>strings.HasPrefix\<close> its \<open>prefix\<close>;
  \<open>strings.Trim\<close> with an ASCII cutset works on bytes.
\<close>

definition Trim :: "gostr \<Rightarrow> byte list \<Rightarrow> gostr" where
  "Trim s cutset =
     rev (dropWhile (\<lambda>b. b \<in> set cutset) (rev (dropWhile (\<lambda>b. b \<in> set cutset) s)))"

text \<open>The part before the first occurrence of a byte: \<open>strings.Split(s, sep)[0]\<close>.\<close>

definition before_first :: "byte \<Rightarrow> gostr \<Rightarrow> gostr" where
  "before_first c s = takeWhile (\<lambda>b. b \<noteq> c) s"

text \<open>Both parts around the last occurrence of a byte: \<open>strings.LastIndexByte\<close>.\<close>

definition split_last :: "byte \<Rightarrow> gostr \<Rightarrow> (gostr \<times> gostr) option" where
  "split_last c s =
     (if c \<in> set s
      then let after = rev (takeWhile (\<lambda>b. b \<noteq> c) (rev s))
           in Some (take (length s - Suc (length after)) s, after)
      else None)"

text \<open>
  A string as its runes with the bytes each was decoded from, for the functions that cut
  between runes and keep the original bytes.
\<close>

function rune_segments :: "gostr \<Rightarrow> (rune \<times> gostr) list" where
  "rune_segments bs =
     (case next_rune bs of
        None \<Rightarrow> []
      | Some (r, rest) \<Rightarrow> (r, take (length bs - length rest) bs) # rune_segments rest)"
  by pat_completeness auto
termination
  by (relation "measure length") (auto simp: next_rune_shorter)

declare rune_segments.simps [simp del]

fun fields_loop :: "(rune \<Rightarrow> bool) \<Rightarrow> gostr \<Rightarrow> (rune \<times> gostr) list \<Rightarrow> gostr list" where
  "fields_loop sep cur [] = (if cur = [] then [] else [cur])"
| "fields_loop sep cur ((r, raw) # segs) =
     (if sep r then (if cur = [] then [] else [cur]) @ fields_loop sep [] segs
      else fields_loop sep (cur @ raw) segs)"

definition FieldsFunc :: "gostr \<Rightarrow> (rune \<Rightarrow> bool) \<Rightarrow> gostr list" where
  "FieldsFunc s sep = fields_loop sep [] (rune_segments s)"

lemma split_last_eq: "split_last c s = Some (a, b) \<Longrightarrow> s = a @ c # b \<and> c \<notin> set b"
proof -
  assume eq: "split_last c s = Some (a, b)"
  then have c: "c \<in> set s" by (auto simp: split_last_def split: if_splits)
  define w where "w = takeWhile (\<lambda>b. b \<noteq> c) (rev s)"
  have ab: "a = take (length s - Suc (length w)) s" "b = rev w"
    using eq c by (auto simp: split_last_def w_def Let_def)
  from c have "c \<in> set (rev s)" by simp
  then obtain ys zs where s: "rev s = ys @ c # zs" "c \<notin> set ys"
    using split_list_first [of c "rev s"] by blast
  then have w: "w = ys" unfolding w_def by (auto simp: takeWhile_append)
  from s(1) have "s = rev zs @ c # rev ys"
    by (metis rev_rev_ident rev_append rev.simps(2) append_assoc append_Cons append_Nil)
  with w ab s(2) show ?thesis by simp
qed

section \<open>Numbers\<close>

definition is_digit :: "byte \<Rightarrow> bool" where
  "is_digit b \<longleftrightarrow> 48 \<le> unat b \<and> unat b \<le> 57"

definition is_hex_digit :: "byte \<Rightarrow> bool" where
  "is_hex_digit b \<longleftrightarrow> is_digit b \<or> (65 \<le> unat b \<and> unat b \<le> 70) \<or> (97 \<le> unat b \<and> unat b \<le> 102)"

definition hex_value :: "byte \<Rightarrow> nat" where
  "hex_value b =
     (let x = unat b in if x \<le> 57 then x - 48 else if x \<le> 70 then x - 55 else x - 87)"

definition decimal_value :: "gostr \<Rightarrow> nat" where
  "decimal_value s = foldl (\<lambda>n b. n * 10 + (unat b - 48)) 0 s"

definition hex_number :: "gostr \<Rightarrow> nat" where
  "hex_number s = foldl (\<lambda>n b. n * 16 + hex_value b) 0 s"

text \<open>\<open>strconv.ParseUint\<close> in base 10 and 16; \<open>None\<close> is its syntax or range error.\<close>

definition ParseUint10 :: "gostr \<Rightarrow> nat \<Rightarrow> nat option" where
  "ParseUint10 s bits =
     (if s = [] \<or> \<not> list_all is_digit s then None
      else if decimal_value s \<ge> 2 ^ bits then None
      else Some (decimal_value s))"

definition ParseUint16 :: "gostr \<Rightarrow> nat \<Rightarrow> nat option" where
  "ParseUint16 s bits =
     (if s = [] \<or> \<not> list_all is_hex_digit s then None
      else if hex_number s \<ge> 2 ^ bits then None
      else Some (hex_number s))"

text \<open>\<open>strconv.Itoa\<close> and \<open>FormatUint(_, 10)\<close> of a natural number.\<close>

fun Itoa :: "nat \<Rightarrow> gostr" where
  "Itoa n = (if n < 10 then [byte_of (48 + n)] else Itoa (n div 10) @ [byte_of (48 + n mod 10)])"

declare Itoa.simps [simp del]

lemma Itoa_digits: "list_all is_digit (Itoa n) \<and> Itoa n \<noteq> []"
proof (induction n rule: Itoa.induct)
  case (1 n)
  show ?case
  proof (cases "n < 10")
    case True
    then show ?thesis by (simp add: Itoa.simps [of n] is_digit_def)
  next
    case False
    have "n mod 10 < 10" by simp
    with False "1.IH" show ?thesis by (simp add: Itoa.simps [of n] is_digit_def)
  qed
qed

lemma decimal_value_append: "decimal_value (s @ [b]) = decimal_value s * 10 + (unat b - 48)"
  by (simp add: decimal_value_def)

lemma decimal_value_Itoa: "decimal_value (Itoa n) = n"
proof (induction n rule: Itoa.induct)
  case (1 n)
  show ?case
  proof (cases "n < 10")
    case True
    then show ?thesis by (simp add: Itoa.simps [of n] decimal_value_def)
  next
    case False
    have "n mod 10 < 10" by simp
    with False "1.IH" show ?thesis by (simp add: Itoa.simps [of n] decimal_value_append)
  qed
qed

lemma Itoa_inject: "Itoa m = Itoa n \<longleftrightarrow> m = n"
  by (metis decimal_value_Itoa)

lemma ParseUint10_Itoa: "n < 2 ^ bits \<Longrightarrow> ParseUint10 (Itoa n) bits = Some n"
  using Itoa_digits [of n] by (simp add: ParseUint10_def decimal_value_Itoa)

lemma ParseUint10_bound: "ParseUint10 s bits = Some n \<Longrightarrow> n < 2 ^ bits"
  by (auto simp: ParseUint10_def split: if_splits)

end
