(* ===== verification/Session.thy ===== *)
theory Session
  imports Conn Keys GoStrings
begin

text \<open>
  The upstream side (\<^verbatim>\<open>openssh/agent.go\<close>): \<open>exchange\<close> of one framed request, the persistent
  \<open>Session\<close> with \<open>Query\<close> and \<open>Close\<close>, the one-shot \<open>QueryAgent\<close> and \<open>ListKeys\<close>
  (\<^verbatim>\<open>openssh/keys.go\<close>). Dialling the pipe is go-winio: it is the argument \<open>dial\<close>.

  Go returns a reply and an error together; so do the models. This theory runs one call at
  a time; calls that overlap with \<open>Close\<close> are the subject of theory SessionConc.
\<close>

section \<open>Local pipe names\<close>

text \<open>The bytes of the two prefixes, with 92 for the backslash.\<close>

definition dot_pipe :: gostr where
  "dot_pipe = [92, 92, 46, 92] @ lit ''pipe'' @ [92]"

definition question_pipe :: gostr where
  "question_pipe = [92, 92, 63, 92] @ lit ''pipe'' @ [92]"

definition localPipeName :: "gostr \<Rightarrow> bool" where
  "localPipeName name \<longleftrightarrow>
     (let lower = ToLower name in
      (prefix dot_pipe lower \<or> prefix question_pipe lower)
      \<and> length name > length dot_pipe \<and> 0 \<notin> set name)"

text \<open>
  In runes: the lower-cased name begins with a prefix and has no NUL, and something follows
  the prefix, or its \<open>i\<close> is the two-byte U+0130.
\<close>

lemma pipe_prefix_bytes:
  "map unat dot_pipe = [92, 92, 46, 92, 112, 105, 112, 101, 92]"
  "map unat question_pipe = [92, 92, 63, 92, 112, 105, 112, 101, 92]"
  "length dot_pipe = 9" "length question_pipe = 9"
  by (simp_all add: dot_pipe_def question_pipe_def lit_def)

lemma local_prefix_runes:
  assumes "map rune_lower rs \<in> {map unat dot_pipe, map unat question_pipe}" "r \<in> set rs"
  shows "r < 128 \<or> r = 0x130"
proof -
  have "rune_lower r \<in> set (map rune_lower rs)" using assms(2) by simp
  then have "rune_lower r \<in> {92, 46, 63, 112, 105, 101}"
    using assms(1) by (auto simp: pipe_prefix_bytes)
  then show ?thesis by (auto simp: rune_lower_def split: if_splits)
qed

lemma localPipeName_runes:
  "localPipeName name \<longleftrightarrow>
     0 \<notin> set name
     \<and> map rune_lower (take 9 (runes_of name)) \<in> {map unat dot_pipe, map unat question_pipe}
     \<and> (9 < length (runes_of name) \<or> 0x130 \<in> set (runes_of name))"
proof -
  let ?rs = "runes_of name"
  have pre: "prefix pre (ToLower name) \<longleftrightarrow> map rune_lower (take 9 ?rs) = map unat pre"
    if "pre \<in> {dot_pipe, question_pipe}" for pre
  proof -
    have "list_all (\<lambda>b. unat b < 128) pre" "length pre = 9"
      using that by (auto simp: dot_pipe_def question_pipe_def lit_def)
    then show ?thesis
      using prefix_take_iff [of "map unat pre" "map rune_lower ?rs"]
      by (simp add: ToLower_def prefix_encode_runes take_map)
  qed
  have len: "9 < length name \<longleftrightarrow> 9 < length ?rs \<or> 0x130 \<in> set ?rs"
    if "map rune_lower (take 9 ?rs) \<in> {map unat dot_pipe, map unat question_pipe}"
  proof (cases "9 < length ?rs")
    case True
    then show ?thesis using length_runes [of name] by linarith
  next
    case False
    have "length (map rune_lower (take 9 ?rs)) = 9" using that by (metis empty_iff insert_iff length_map pipe_prefix_bytes(3,4))
    with False have nine: "length ?rs = 9" "take 9 ?rs = ?rs" by simp_all
    have ascii: "r < 128 \<or> r = 0x130" if "r \<in> set ?rs" for r
      using local_prefix_runes \<open>map rune_lower (take 9 ?rs) \<in> _\<close> nine(2) that by metis
    show ?thesis
    proof (cases "0x130 \<in> set ?rs")
      case True
      then have "filter (\<lambda>r. 128 \<le> r \<and> r \<noteq> RuneError) ?rs \<noteq> []"
        by (auto simp: filter_empty_conv RuneError_def intro: bexI [of _ "0x130"])
      then have "0 < length (filter (\<lambda>r. 128 \<le> r \<and> r \<noteq> RuneError) ?rs)" by blast
      with True nine length_runes [of name] show ?thesis by linarith
    next
      case no: False
      then have "list_all (\<lambda>r. r < 128) ?rs" using ascii by (auto simp: list_all_iff)
      with no nine length_runes [of name] show ?thesis by auto
    qed
  qed
  show ?thesis
    using pre [of dot_pipe] pre [of question_pipe] len
    by (auto simp: localPipeName_def Let_def pipe_prefix_bytes)
qed
section \<open>One exchange\<close>

datatype operation =
  Set_write_deadline | Write_request | Set_read_deadline | Read_reply_length | Read_reply

datatype query_error =
    Bind_needs_session
  | Invalid_request frame_error
  | Pipe_not_local
  | Session_closed
  | Connect_failed io_error
  | Operation_failed operation io_error
  | Invalid_reply_length nat
  | Invalid_reply frame_error

type_synonym reply = "byte list \<times> query_error option"

definition fail_reply :: "operation \<Rightarrow> io_error \<Rightarrow> reply" where
  "fail_reply operation err = (genericFailResponse, Some (Operation_failed operation err))"

text \<open>Reading the reply, after the request went out.\<close>

definition read_reply :: "conn \<Rightarrow> reply \<times> conn" where
  "read_reply c =
     (case ReadFull 4 c of
        ((_, Some err), c) \<Rightarrow> (fail_reply Read_reply_length err, c)
      | ((header, None), c) \<Rightarrow>
          let payloadLength = unat (be32 header) in
          if payloadLength = 0 \<or> payloadLength > AgentMaxResponseLength
          then ((genericFailResponse, Some (Invalid_reply_length payloadLength)), c)
          else case ReadFull payloadLength c of
                 ((_, Some err), c) \<Rightarrow> (fail_reply Read_reply err, c)
               | ((body, None), c) \<Rightarrow>
                   (case ValidateResponse (header @ body) of
                      Some e \<Rightarrow> ((genericFailResponse, Some (Invalid_reply e)), c)
                    | None \<Rightarrow> ((header @ body, None), c)))"

definition exchange :: "conn \<Rightarrow> byte list \<Rightarrow> reply \<times> conn" where
  "exchange c request =
     (case SetWriteDeadline c of
        (Some err, c) \<Rightarrow> (fail_reply Set_write_deadline err, c)
      | (None, c) \<Rightarrow>
          (case write_all request c of
             (Some err, c) \<Rightarrow> (fail_reply Write_request err, c)
           | (None, c) \<Rightarrow>
               (case SetReadDeadline c of
                  (Some err, c) \<Rightarrow> (fail_reply Set_read_deadline err, c)
                | (None, c) \<Rightarrow> read_reply c)))"

text \<open>A reply is well-formed: a valid frame, and the failure frame beside an error.\<close>

definition good_reply :: "reply \<Rightarrow> bool" where
  "good_reply r \<longleftrightarrow> ValidateResponse (fst r) = None
     \<and> (snd r \<noteq> None \<longrightarrow> fst r = genericFailResponse)"

lemma good_failure [simp, frame_rules]: "good_reply (genericFailResponse, e)"
  by (simp add: good_reply_def)

lemma good_fail_reply [simp, frame_rules]: "good_reply (fail_reply operation err)"
  by (simp add: fail_reply_def)

lemma read_reply_good: "good_reply (fst (read_reply c))"
  by (auto simp: read_reply_def good_reply_def fail_reply_def Let_def split: prod.splits option.splits)

lemma exchange_good: "good_reply (fst (exchange c request))"
  using read_reply_good by (auto simp: exchange_def split: prod.splits option.splits)

text \<open>A reply accepted from the stream is the next frame of the stream, and only that.\<close>

lemma read_reply_stream:
  assumes "read_reply c = ((reply, None), c')"
  shows "stream c = reply @ stream c'" and "ValidateResponse reply = None"
    and "same_but_reads c c'" and "clean_reads c \<Longrightarrow> clean_reads c'"
proof -
  obtain header c1 where h: "ReadFull 4 c = ((header, None), c1)"
    using assms by (auto simp: read_reply_def fail_reply_def split: prod.splits option.splits)
  let ?n = "unat (be32 header)"
  obtain body where b: "ReadFull ?n c1 = ((body, None), c')" and reply: "reply = header @ body"
    and v: "ValidateResponse (header @ body) = None"
    using assms h
    by (auto simp: read_reply_def fail_reply_def Let_def split: prod.splits option.splits if_splits)
  note d1 = ReadFull_Ok [OF h] and d2 = ReadFull_Ok [OF b]
  show "stream c = reply @ stream c'" using d1(1) d2(1) reply by simp
  show "ValidateResponse reply = None" using v reply by simp
  show "same_but_reads c c'" using d1(3) d2(3) by (rule same_but_reads_trans)
  show "clean_reads c \<Longrightarrow> clean_reads c'" using d1(4) d2(4) by simp
qed

lemma read_reply_complete:
  assumes clean: "clean_reads c" and s: "stream c = reply @ rest" and v: "ValidateResponse reply = None"
  shows "\<exists>c'. read_reply c = ((reply, None), c') \<and> stream c' = rest \<and> same_but_reads c c' \<and> clean_reads c'"
proof -
  from v obtain p where p: "p \<noteq> []" "length p \<le> 262144" "reply = frame_of p"
    by (auto simp: ValidateResponse_iff)
  let ?header = "put_be32 (u32_of (length p))"
  have s': "stream c = ?header @ p @ rest" using s p(3) by (simp add: frame_of_def)
  have n: "unat (be32 ?header) = length p" using p(2) by simp
  obtain c1 where c1: "ReadFull 4 c = ((?header, None), c1)" "stream c1 = p @ rest"
    "same_but_reads c c1" "clean_reads c1"
    using ReadFull_clean [OF clean, of 4] s' by auto
  obtain c2 where c2: "ReadFull (length p) c1 = ((p, None), c2)" "stream c2 = rest"
    "same_but_reads c1 c2" "clean_reads c2"
    using ReadFull_clean [OF c1(4), of "length p"] c1(2) by auto
  have "read_reply c = ((reply, None), c2)"
    using c1(1) c2(1) n p v
    by (simp add: read_reply_def Let_def AgentMaxResponseLength_def frame_of_def del: be32_put_be32_Nil)
  with c1 c2 show ?thesis using same_but_reads_trans by blast
qed

text \<open>Frame properties of the deadline calls.\<close>

lemma SetWriteDeadline_frame:
  "SetWriteDeadline c = (e, c') \<Longrightarrow>
     stream c' = stream c \<and> sent c' = sent c \<and> wr_script c' = wr_script c
     \<and> rd_deadlines c' = rd_deadlines c \<and> clean_reads c' = clean_reads c"
  by (auto simp: SetWriteDeadline_def stream_def clean_reads_def split: list.splits)

lemma SetReadDeadline_frame:
  "SetReadDeadline c = (e, c') \<Longrightarrow>
     stream c' = stream c \<and> sent c' = sent c \<and> wr_script c' = wr_script c
     \<and> wr_deadlines c' = wr_deadlines c \<and> clean_reads c' = clean_reads c"
  by (auto simp: SetReadDeadline_def stream_def clean_reads_def split: list.splits)

lemma same_but_writes_stream: "same_but_writes c c' \<Longrightarrow> stream c' = stream c \<and> clean_reads c' = clean_reads c"
  by (simp add: same_but_writes_def stream_def clean_reads_def)

text \<open>
  A successful exchange sent exactly the request and consumed exactly the reply; a failed
  one sent a prefix of the request.
\<close>

lemma exchange_success:
  assumes "exchange c request = ((reply, None), c')"
  shows "sent c' = sent c @ request" and "stream c = reply @ stream c'"
    and "ValidateResponse reply = None"
proof -
  obtain c1 c2 c3 where steps: "SetWriteDeadline c = (None, c1)" "write_all request c1 = (None, c2)"
    "SetReadDeadline c2 = (None, c3)" "read_reply c3 = ((reply, None), c')"
    using assms by (auto simp: exchange_def fail_reply_def split: prod.splits option.splits)
  note w = write_all_sends [OF steps(2)]
  note frames = SetWriteDeadline_frame [OF steps(1)] SetReadDeadline_frame [OF steps(3)]
    same_but_writes_stream [OF conjunct1 [OF w]]
  note r = read_reply_stream [OF steps(4)]
  show "sent c' = sent c @ request" using w frames r(3) by (simp add: same_but_reads_def)
  show "stream c = reply @ stream c'" using frames r(1) by simp
  show "ValidateResponse reply = None" by (rule r(2))
qed

lemma read_reply_sent: "read_reply c = (r, c') \<Longrightarrow> sent c' = sent c"
  by (auto simp: read_reply_def fail_reply_def Let_def same_but_reads_def
      dest!: ReadFull_frame(1) split: prod.splits option.splits if_splits)

lemma exchange_sends_prefix:
  assumes "exchange c request = (r, c')"
  shows "\<exists>k. sent c' = sent c @ take k request"
proof -
  obtain e1 c1 where 1: "SetWriteDeadline c = (e1, c1)" by (metis prod.exhaust)
  obtain e2 c2 where 2: "write_all request c1 = (e2, c2)" by (metis prod.exhaust)
  obtain e3 c3 where 3: "SetReadDeadline c2 = (e3, c3)" by (metis prod.exhaust)
  note f = SetWriteDeadline_frame [OF 1] write_all_sends [OF 2] SetReadDeadline_frame [OF 3]
  have "c' = c1 \<or> c' = c2 \<or> c' = c3 \<or> read_reply c3 = (r, c')"
    using assms 1 2 3 by (auto simp: exchange_def split: option.splits)
  then show ?thesis
    using f read_reply_sent [of c3 r c'] by (auto intro: exI [of _ 0])
qed

lemma exchange_complete:
  assumes "hd (wr_deadlines c @ [None]) = None" and "hd (rd_deadlines c @ [None]) = None"
    and "wr_script c = map (\<lambda>n. (int n, None)) ns @ script" "list_all (\<lambda>n. 0 < n) ns"
    and "sum_list ns = length request"
    and "clean_reads c" and "stream c = reply @ rest" and "ValidateResponse reply = None"
  shows "\<exists>c'. exchange c request = ((reply, None), c') \<and> stream c' = rest \<and> clean_reads c'
    \<and> sent c' = sent c @ request"
proof -
  obtain c1 where 1: "SetWriteDeadline c = (None, c1)"
    using assms(1) by (cases "wr_deadlines c") (auto simp: SetWriteDeadline_def)
  note f1 = SetWriteDeadline_frame [OF 1]
  obtain c2 where 2: "write_all request c1 = (None, c2)"
    using write_all_succeeds [of c1 ns script request] f1 assms by auto
  note f2 = write_all_sends [OF 2]
  obtain c3 where 3: "SetReadDeadline c2 = (None, c3)"
    using assms(2) f1 f2 by (cases "rd_deadlines c") (auto simp: SetReadDeadline_def same_but_writes_def)
  note f3 = SetReadDeadline_frame [OF 3]
  have "clean_reads c3" "stream c3 = reply @ rest"
    using f1 f2 f3 assms same_but_writes_stream [of c1 c2] by auto
  then obtain c4 where 4: "read_reply c3 = ((reply, None), c4)" "stream c4 = rest" "clean_reads c4"
    using read_reply_complete assms(8) by blast
  then have ex: "exchange c request = ((reply, None), c4)"
    by (simp add: exchange_def 1 2 3)
  with 4 exchange_success(1) [OF ex] show ?thesis by blast
qed

section \<open>The session\<close>

text \<open>
  The fields of \<open>Session\<close>, and a record of what it does to the pipe: how many times it
  dialled, and the connections it closed, each as it was when it was closed.
\<close>

record session =
  pipe_name :: gostr
  session_conn :: "conn option"
  session_closed :: bool
  session_cancelled :: bool
  session_dials :: nat
  session_released :: "conn list"

definition NewSession :: "gostr \<Rightarrow> session" where
  "NewSession name =
     \<lparr>pipe_name = name, session_conn = None, session_closed = False, session_cancelled = False,
      session_dials = 0, session_released = []\<rparr>"

text \<open>\<open>Close\<close> with the connection it closes, if there was one.\<close>

definition Close :: "session \<Rightarrow> conn option \<times> session" where
  "Close s =
     (if session_closed s then (None, s)
      else (session_conn s, s\<lparr>session_closed := True, session_cancelled := True, session_conn := None,
        session_released := session_released s
          @ (case session_conn s of None \<Rightarrow> [] | Some c \<Rightarrow> [c])\<rparr>))"

text \<open>One call of \<open>winio.DialPipeContext\<close>, counted.\<close>

definition dial_pipe ::
  "(gostr \<Rightarrow> io_error + conn) \<Rightarrow> session \<Rightarrow> (io_error + conn) \<times> session" where
  "dial_pipe dial s = (dial (pipe_name s), s\<lparr>session_dials := Suc (session_dials s)\<rparr>)"

text \<open>The exchange on an established connection, and the retirement on an error.\<close>

definition query_on :: "conn \<Rightarrow> byte list \<Rightarrow> session \<Rightarrow> reply \<times> session" where
  "query_on c request s =
     (let (r, c') = exchange c request; s' = s\<lparr>session_conn := Some c'\<rparr> in
      if snd r \<noteq> None then (r, snd (Close s')) else (r, s'))"

definition Query ::
  "(gostr \<Rightarrow> io_error + conn) \<Rightarrow> byte list \<Rightarrow> session \<Rightarrow> reply \<times> session" where
  "Query dial request s =
     (case ValidateRequest request of
        Some e \<Rightarrow> ((genericFailResponse, Some (Invalid_request e)), s)
      | None \<Rightarrow>
          if \<not> localPipeName (pipe_name s) then ((genericFailResponse, Some Pipe_not_local), s)
          else if session_closed s then ((genericFailResponse, Some Session_closed), s)
          else case session_conn s of
                 Some c \<Rightarrow> query_on c request s
               | None \<Rightarrow>
                   (case dial_pipe dial s of
                      (Inl err, s) \<Rightarrow> ((genericFailResponse, Some (Connect_failed err)), snd (Close s))
                    | (Inr c, s) \<Rightarrow> query_on c request (s\<lparr>session_conn := Some c\<rparr>)))"

definition QueryAgent :: "(gostr \<Rightarrow> io_error + conn) \<Rightarrow> gostr \<Rightarrow> byte list \<Rightarrow> reply" where
  "QueryAgent dial pipeName request =
     (if ValidateRequest request = None \<and> isSessionBind request
      then (genericFailResponse, Some Bind_needs_session)
      else fst (Query dial request (NewSession pipeName)))"

datatype list_error = List_query query_error | List_parse key_error

definition ListKeys :: "(gostr \<Rightarrow> io_error + conn) \<Rightarrow> gostr \<Rightarrow> list_error + Key list" where
  "ListKeys dial pipeName =
     (case QueryAgent dial pipeName [0, 0, 0, 1, agentRequestIdentities] of
        (reply, Some err) \<Rightarrow> Inl (List_query err)
      | (reply, None) \<Rightarrow>
          (case parseKeys reply of
             Inl e \<Rightarrow> Inl (List_parse e)
           | Inr keys \<Rightarrow> Inr keys))"

section \<open>What a session promises\<close>

text \<open>
  The contract the bridge relies on, whatever the implementation: replies are valid frames,
  a request refused before the transport leaves the session alone, a transport error
  retires it, and a retired session answers every later request with the failure frame and
  stays retired.
\<close>

definition transport_error :: "query_error \<Rightarrow> bool" where
  "transport_error e \<longleftrightarrow>
     (case e of
        Connect_failed _ \<Rightarrow> True | Operation_failed _ _ \<Rightarrow> True
      | Invalid_reply_length _ \<Rightarrow> True | Invalid_reply _ \<Rightarrow> True | _ \<Rightarrow> False)"

text \<open>Requests one after another, as the bridge sends those of one client.\<close>

primrec run_queries ::
  "('q \<Rightarrow> 's \<Rightarrow> 'r \<times> 's) \<Rightarrow> 'q list \<Rightarrow> 's \<Rightarrow> 'r list \<times> 's" where
  "run_queries query [] s = ([], s)"
| "run_queries query (q # qs) s =
     (let (r, s') = query q s; (rs, s'') = run_queries query qs s' in (r # rs, s''))"

locale agent_session =
  fixes query :: "byte list \<Rightarrow> 's \<Rightarrow> reply \<times> 's"
    and close :: "'s \<Rightarrow> 's"
    and retired :: "'s \<Rightarrow> bool"
  assumes query_good: "good_reply (fst (query request s))"
    and close_retires: "retired (close s)"
    and error_retires: "snd (fst (query request s)) = Some e \<Longrightarrow> transport_error e \<Longrightarrow>
      retired (snd (query request s))"
    and retired_stays: "retired s \<Longrightarrow> snd (query request s) = s"
    and retired_refuses: "retired s \<Longrightarrow> fst (fst (query request s)) = genericFailResponse
      \<and> snd (fst (query request s)) \<noteq> None"
begin

lemma queries_good: "list_all good_reply (fst (run_queries query qs s))"
proof (induction qs arbitrary: s)
  case (Cons q qs)
  then show ?case
    using query_good [of q s] by (simp add: Let_def split_def)
qed simp

lemma retired_run: "retired s \<Longrightarrow> snd (run_queries query qs s) = s
    \<and> list_all (\<lambda>r. fst r = genericFailResponse \<and> snd r \<noteq> None) (fst (run_queries query qs s))"
proof (induction qs)
  case (Cons q qs)
  then show ?case
    using retired_stays [of s q] retired_refuses [of s q] by (auto simp: Let_def split: prod.splits)
qed simp

text \<open>After one transport error, nothing but failures.\<close>

lemma error_is_terminal:
  assumes "snd (fst (query q s)) = Some e" "transport_error e"
  shows "list_all (\<lambda>r. fst r = genericFailResponse) (fst (run_queries query qs (snd (query q s))))"
  using retired_run [OF error_retires [OF assms], of qs] by (auto simp: list_all_iff)

end

lemma Close_closed [simp]: "session_closed (snd (Close s))"
  by (simp add: Close_def)

lemma query_on_retires:
  "snd (fst (query_on c request s)) \<noteq> None \<Longrightarrow> session_closed (snd (query_on c request s))"
  by (auto simp: query_on_def Let_def split: prod.splits)

lemma query_on_good: "good_reply (fst (query_on c request s))"
  using exchange_good [of c request] by (auto simp: query_on_def Let_def split: prod.splits)

lemma Query_good: "good_reply (fst (Query dial request s))"
  by (auto simp: Query_def dial_pipe_def query_on_good split: option.split sum.split)

interpretation session: agent_session "Query dial" "\<lambda>s. snd (Close s)" session_closed for dial
proof unfold_locales
  show "good_reply (fst (Query dial request s))" for request s by (rule Query_good)
  show "session_closed (snd (Query dial request s))"
    if "snd (fst (Query dial request s)) = Some e" "transport_error e" for request s e
    using that
    by (auto simp: Query_def dial_pipe_def transport_error_def query_on_retires
        split: option.splits sum.splits if_splits)
  show "snd (Query dial request s) = s" if "session_closed s" for request s
    using that by (auto simp: Query_def split: option.split)
  show "fst (fst (Query dial request s)) = genericFailResponse \<and> snd (fst (Query dial request s)) \<noteq> None"
    if "session_closed s" for request s
    using that by (auto simp: Query_def split: option.split)
qed simp

text \<open>
  What a call does to the pipe: it dials only without a connection, and closes the
  connection it used when the exchange failed.
\<close>

lemma Query_retires:
  assumes "snd (fst (Query dial request s)) = Some e" "transport_error e"
  defines "s' \<equiv> snd (Query dial request s)"
  shows "session_conn s' = None"
    and "session_dials s' = session_dials s + (if session_conn s = None then 1 else 0)"
    and "session_released s' = session_released s
      @ (case (session_conn s, dial (pipe_name s)) of
           (Some c, _) \<Rightarrow> [snd (exchange c request)]
         | (None, Inr c) \<Rightarrow> [snd (exchange c request)]
         | (None, Inl _) \<Rightarrow> [])"
  using assms(1,2) unfolding s'_def
  by (auto simp: Query_def dial_pipe_def query_on_def Let_def Close_def transport_error_def
      split: option.splits sum.splits if_splits prod.splits)

end
