(* ===== verification/Machine.thy ===== *)
theory Machine
  imports Main
begin

text \<open>
  Reachable states of a step relation, and the interface of an inductive invariant: what the
  machines of the development (the session under concurrent \<open>Close\<close>, the pipe server, the
  desktop) are proved with.
\<close>

inductive reach :: "('s \<Rightarrow> bool) \<Rightarrow> ('s \<Rightarrow> 's \<Rightarrow> bool) \<Rightarrow> 's \<Rightarrow> bool"
  for init :: "'s \<Rightarrow> bool" and step :: "'s \<Rightarrow> 's \<Rightarrow> bool" where
  reach_init: "init s \<Longrightarrow> reach init step s"
| reach_step: "reach init step s \<Longrightarrow> step s t \<Longrightarrow> reach init step t"

lemma reach_steps: "step\<^sup>*\<^sup>* s t \<Longrightarrow> reach init step s \<Longrightarrow> reach init step t"
  by (induction rule: rtranclp_induct) (auto intro: reach_step)

locale machine_invariant =
  fixes init :: "'s \<Rightarrow> bool" and step :: "'s \<Rightarrow> 's \<Rightarrow> bool" and inv :: "'s \<Rightarrow> bool"
  assumes inv_init: "init s \<Longrightarrow> inv s"
    and inv_step: "step s t \<Longrightarrow> inv s \<Longrightarrow> inv t"
begin

lemma reach_inv: "reach init step s \<Longrightarrow> inv s"
  by (induction rule: reach.induct) (auto intro: inv_init inv_step)

lemma steps_inv: "step\<^sup>*\<^sup>* s t \<Longrightarrow> inv s \<Longrightarrow> inv t"
  by (induction rule: rtranclp_induct) (auto intro: inv_step)

end

text \<open>A flag that no step clears, once set, stays set along every run.\<close>

locale monotone_flag =
  fixes step :: "'s \<Rightarrow> 's \<Rightarrow> bool" and flag :: "'s \<Rightarrow> bool"
  assumes flag_step: "step s t \<Longrightarrow> flag s \<Longrightarrow> flag t"
begin

lemma flag_steps: "step\<^sup>*\<^sup>* s t \<Longrightarrow> flag s \<Longrightarrow> flag t"
  by (induction rule: rtranclp_induct) (auto intro: flag_step)

end

sublocale monotone_flag \<subseteq> flag_inv: machine_invariant flag step flag
  by unfold_locales (auto intro: flag_step)

text \<open>
  A phase, entered for good, in which every step makes a rank smaller: a run inside the phase
  has at most as many steps as the rank where it starts.
\<close>

locale ranked_phase = machine_invariant init step inv + monotone_flag step phase
  for init :: "'s \<Rightarrow> bool" and step :: "'s \<Rightarrow> 's \<Rightarrow> bool" and inv :: "'s \<Rightarrow> bool" and phase :: "'s \<Rightarrow> bool" +
  fixes rank :: "'s \<Rightarrow> nat"
  assumes rank_step: "step s t \<Longrightarrow> inv s \<Longrightarrow> phase s \<Longrightarrow> rank t < rank s"
begin

lemma run_bounded: "(step ^^ n) s t \<Longrightarrow> inv s \<Longrightarrow> phase s \<Longrightarrow> n + rank t \<le> rank s"
proof (induction n arbitrary: t)
  case (Suc n)
  then obtain u where u: "(step ^^ n) s u" "step u t" by auto
  have run: "step\<^sup>*\<^sup>* s u" using u(1) by (rule relpowp_imp_rtranclp)
  from rank_step [OF u(2) steps_inv [OF run Suc.prems(2)] flag_steps [OF run Suc.prems(3)]]
    Suc.IH [OF u(1) Suc.prems(2,3)] show ?case by simp
qed simp

text \<open>So the phase always reaches a state with no further step.\<close>

lemma reaches_end: "inv s \<Longrightarrow> phase s \<Longrightarrow> \<exists>t. step\<^sup>*\<^sup>* s t \<and> (\<nexists>u. step t u)"
proof (induction "rank s" arbitrary: s rule: less_induct)
  case less
  show ?case
  proof (cases "\<exists>u. step s u")
    case True
    then obtain u where u: "step s u" by blast
    with less rank_step inv_step flag_step obtain t where "step\<^sup>*\<^sup>* u t" "\<nexists>v. step t v" by metis
    with u show ?thesis by (meson converse_rtranclp_into_rtranclp)
  qed auto
qed

end

text \<open>
  A forward simulation: each step is a step of the abstract machine, or none, under an
  invariant. Reachable states are abstractly reachable, and runs are abstract runs.
\<close>

locale simulation = machine_invariant init step inv
  for init :: "'s \<Rightarrow> bool" and step :: "'s \<Rightarrow> 's \<Rightarrow> bool" and inv :: "'s \<Rightarrow> bool" +
  fixes abs :: "'s \<Rightarrow> 'a" and abs_init :: "'a \<Rightarrow> bool" and abs_step :: "'a \<Rightarrow> 'a \<Rightarrow> bool"
  assumes abs_start: "init s \<Longrightarrow> abs_init (abs s)"
    and step_simulated: "step s t \<Longrightarrow> inv s \<Longrightarrow> abs t = abs s \<or> abs_step (abs s) (abs t)"
begin

lemma run_simulated: "step\<^sup>*\<^sup>* s t \<Longrightarrow> inv s \<Longrightarrow> abs_step\<^sup>*\<^sup>* (abs s) (abs t)"
proof (induction rule: rtranclp_induct)
  case (step t u)
  with step_simulated [OF step.hyps(2) steps_inv [OF step.hyps(1) step.prems]] show ?case
    by (auto intro: rtranclp.rtrancl_into_rtrancl)
qed simp

text \<open>
  A run as the list of its states: the abstract states it passes through, repetitions left
  out, are a run of the abstract machine, step by step.
\<close>

lemma states_simulated:
  "successively step (s # ss) \<Longrightarrow> inv s \<Longrightarrow> successively abs_step (remdups_adj (map abs (s # ss)))"
proof (induction ss arbitrary: s)
  case (Cons t ss)
  then have s: "step s t" "successively step (t # ss)" by simp_all
  note IH = Cons.IH [OF s(2) inv_step [OF s(1) Cons.prems(2)]]
  have "abs t = abs s \<or> abs_step (abs s) (abs t)" using step_simulated [OF s(1) Cons.prems(2)] .
  with IH show ?case by (auto simp: successively_Cons)
qed simp

lemma reach_simulated: "reach init step s \<Longrightarrow> reach abs_init abs_step (abs s)"
proof (induction rule: reach.induct)
  case (reach_step s t)
  with step_simulated [OF reach_step.hyps(2) reach_inv [OF reach_step.hyps(1)]] show ?case
    by (auto intro: reach.reach_step)
qed (auto intro: reach_init abs_start)

end

end
