(* ===== verification/SessionConc.thy ===== *)
theory SessionConc
  imports Session Machine
begin

text \<open>
  \<open>Session.Query\<close> and \<open>Session.Close\<close> running at the same time (\<^verbatim>\<open>openssh/agent.go\<close>).
  \<open>queryMu\<close> admits one query at a time; \<open>stateMu\<close> is held for the short sections that read
  or write \<open>closed\<close> and \<open>conn\<close>, so each section is one step. Dialling, the exchange and
  \<open>conn.Close\<close> run outside the lock and are steps of their own, between which any number
  of \<open>Close\<close> calls may come. Connections are numbered in the order they are opened.
\<close>

section \<open>The machine\<close>

datatype query_pc =
    Q_idle                     \<comment> \<open>no query holds \<open>queryMu\<close>\<close>
  | Q_checked                  \<comment> \<open>the request is valid and the pipe local\<close>
  | Q_dialling
  | Q_dialled nat              \<comment> \<open>before the second look at \<open>closed\<close>\<close>
  | Q_discarding nat           \<comment> \<open>\<open>closed\<close> was set meanwhile: \<open>conn.Close\<close>\<close>
  | Q_exchanging nat
  | Q_failed                   \<comment> \<open>about to call \<open>s.Close\<close>\<close>
  | Q_releasing "nat option"   \<comment> \<open>inside \<open>s.Close\<close>, after the lock\<close>

record session_sys =
  sys_closed :: bool
  sys_conn :: "nat option"
  query_at :: query_pc
  pending :: "nat set"         \<comment> \<open>taken by other \<open>Close\<close> calls, not yet closed\<close>
  open_conns :: "nat set"
  dials :: nat
  opened :: nat

definition init_session :: "session_sys \<Rightarrow> bool" where
  "init_session m \<longleftrightarrow> m = \<lparr>sys_closed = False, sys_conn = None, query_at = Q_idle,
     pending = {}, open_conns = {}, dials = 0, opened = 0\<rparr>"

definition take_conn :: "session_sys \<Rightarrow> session_sys" where
  "take_conn m = m\<lparr>sys_closed := True, sys_conn := None\<rparr>"

inductive session_step :: "session_sys \<Rightarrow> session_sys \<Rightarrow> bool" where
  q_enter: "query_at m = Q_idle \<Longrightarrow> session_step m (m\<lparr>query_at := Q_checked\<rparr>)"
| q_see_closed: "query_at m = Q_checked \<Longrightarrow> sys_closed m \<Longrightarrow>
     session_step m (m\<lparr>query_at := Q_idle\<rparr>)"
| q_see_conn: "query_at m = Q_checked \<Longrightarrow> \<not> sys_closed m \<Longrightarrow> sys_conn m = Some c \<Longrightarrow>
     session_step m (m\<lparr>query_at := Q_exchanging c\<rparr>)"
| q_see_none: "query_at m = Q_checked \<Longrightarrow> \<not> sys_closed m \<Longrightarrow> sys_conn m = None \<Longrightarrow>
     session_step m (m\<lparr>query_at := Q_dialling, dials := Suc (dials m)\<rparr>)"
| q_dial_fails: "query_at m = Q_dialling \<Longrightarrow> session_step m (m\<lparr>query_at := Q_failed\<rparr>)"
| q_dial_succeeds: "query_at m = Q_dialling \<Longrightarrow>
     session_step m (m\<lparr>query_at := Q_dialled (opened m), opened := Suc (opened m),
       open_conns := insert (opened m) (open_conns m)\<rparr>)"
| q_install: "query_at m = Q_dialled c \<Longrightarrow> \<not> sys_closed m \<Longrightarrow>
     session_step m (m\<lparr>query_at := Q_exchanging c, sys_conn := Some c\<rparr>)"
| q_too_late: "query_at m = Q_dialled c \<Longrightarrow> sys_closed m \<Longrightarrow>
     session_step m (m\<lparr>query_at := Q_discarding c\<rparr>)"
| q_discard: "query_at m = Q_discarding c \<Longrightarrow>
     session_step m (m\<lparr>query_at := Q_idle, open_conns := open_conns m - {c}\<rparr>)"
| q_succeeds: "query_at m = Q_exchanging c \<Longrightarrow> session_step m (m\<lparr>query_at := Q_idle\<rparr>)"
| q_fails: "query_at m = Q_exchanging c \<Longrightarrow> session_step m (m\<lparr>query_at := Q_failed\<rparr>)"
| q_close_again: "query_at m = Q_failed \<Longrightarrow> sys_closed m \<Longrightarrow>
     session_step m (m\<lparr>query_at := Q_idle\<rparr>)"
| q_close: "query_at m = Q_failed \<Longrightarrow> \<not> sys_closed m \<Longrightarrow>
     session_step m ((take_conn m)\<lparr>query_at := Q_releasing (sys_conn m)\<rparr>)"
| q_release: "query_at m = Q_releasing co \<Longrightarrow>
     session_step m (m\<lparr>query_at := Q_idle, open_conns := open_conns m - set_option co\<rparr>)"
| close: "\<not> sys_closed m \<Longrightarrow>
     session_step m ((take_conn m)\<lparr>pending := pending m \<union> set_option (sys_conn m)\<rparr>)"
| close_release: "c \<in> pending m \<Longrightarrow>
     session_step m (m\<lparr>pending := pending m - {c}, open_conns := open_conns m - {c}\<rparr>)"

section \<open>The invariant\<close>

text \<open>The connections a query holds in its own hands.\<close>

fun held :: "query_pc \<Rightarrow> nat set" where
  "held (Q_dialled c) = {c}"
| "held (Q_discarding c) = {c}"
| "held (Q_releasing co) = set_option co"
| "held _ = {}"

fun before_install :: "query_pc \<Rightarrow> bool" where
  "before_install Q_dialling = True"
| "before_install (Q_dialled _) = True"
| "before_install Q_failed = True"
| "before_install _ = False"

definition session_inv :: "session_sys \<Rightarrow> bool" where
  "session_inv m \<longleftrightarrow>
     (sys_closed m \<longrightarrow> sys_conn m = None)
     \<and> open_conns m \<subseteq> set_option (sys_conn m) \<union> pending m \<union> held (query_at m)
     \<and> set_option (sys_conn m) \<union> pending m \<union> held (query_at m) \<subseteq> {..<opened m}
     \<and> dials m \<le> 1
     \<and> opened m \<le> dials m
     \<and> (query_at m = Q_dialling \<longrightarrow> opened m = 0)
     \<and> (query_at m = Q_dialling \<or> (\<exists>c. query_at m = Q_dialled c) \<longrightarrow> dials m = 1 \<and> sys_conn m = None)
     \<and> (dials m = 1 \<longrightarrow> sys_closed m \<or> sys_conn m \<noteq> None \<or> before_install (query_at m))"

lemma session_inv_step: "session_step m m' \<Longrightarrow> session_inv m \<Longrightarrow> session_inv m'"
proof (induction rule: session_step.induct)
  case (q_see_none m)
  then have "dials m = 0" by (auto simp: session_inv_def)
  with q_see_none show ?case by (auto simp: session_inv_def)
next
  case q_enter
  then show ?case by (auto simp: session_inv_def take_conn_def)
next
  case q_see_closed
  then show ?case by (auto simp: session_inv_def take_conn_def)
next
  case q_see_conn
  then show ?case by (auto simp: session_inv_def take_conn_def)
next
  case q_dial_fails
  then show ?case by (auto simp: session_inv_def take_conn_def)
next
  case q_dial_succeeds
  then show ?case by (auto simp: session_inv_def take_conn_def)
next
  case q_install
  then show ?case by (auto simp: session_inv_def take_conn_def)
next
  case q_too_late
  then show ?case by (auto simp: session_inv_def take_conn_def)
next
  case q_discard
  then show ?case by (auto simp: session_inv_def take_conn_def)
next
  case q_succeeds
  then show ?case by (auto simp: session_inv_def take_conn_def)
next
  case q_fails
  then show ?case by (auto simp: session_inv_def take_conn_def)
next
  case q_close_again
  then show ?case by (auto simp: session_inv_def take_conn_def)
next
  case q_close
  then show ?case by (auto simp: session_inv_def take_conn_def)
next
  case q_release
  then show ?case by (auto simp: session_inv_def take_conn_def)
next
  case close
  then show ?case by (auto simp: session_inv_def take_conn_def)
next
  case (close_release c m)
  then have inv: "session_inv m" by simp
  then have "open_conns m - {c} \<subseteq> set_option (sys_conn m) \<union> (pending m - {c}) \<union> held (query_at m)"
    unfolding session_inv_def by blast
  moreover have "set_option (sys_conn m) \<union> (pending m - {c}) \<union> held (query_at m) \<subseteq> {..<opened m}"
    using inv unfolding session_inv_def by blast
  ultimately show ?case using inv by (simp add: session_inv_def)
qed

interpretation session_machine: machine_invariant init_session session_step session_inv
proof unfold_locales
  show "session_inv m" if "init_session m" for m
    using that by (simp add: init_session_def session_inv_def)
qed (rule session_inv_step)

interpretation session_closed_flag: monotone_flag session_step sys_closed
  by unfold_locales (auto elim: session_step.cases simp: take_conn_def)

section \<open>What a run does to the pipe\<close>

text \<open>
  The visible actions: a dial and an exchange with their outcomes, and the steps of other
  \<open>Close\<close> calls. The steps of \<open>Query\<close> on its own fields are silent.
\<close>

datatype act = Dialled bool | Exchanged bool | Outside

definition acts_of :: "session_sys \<Rightarrow> session_sys \<Rightarrow> act list" where
  "acts_of m m' =
     (if query_at m' = query_at m then [Outside]
      else case query_at m of
             Q_dialling \<Rightarrow> [Dialled (query_at m' \<noteq> Q_failed)]
           | Q_exchanging _ \<Rightarrow> [Exchanged (query_at m' = Q_idle)]
           | _ \<Rightarrow> [])"

inductive session_run :: "session_sys \<Rightarrow> act list \<Rightarrow> session_sys \<Rightarrow> bool" where
  run_none: "session_run m [] m"
| run_step: "session_step m m' \<Longrightarrow> session_run m' acts m'' \<Longrightarrow> session_run m (acts_of m m' @ acts) m''"

lemma run_silent:
  "session_step m m' \<Longrightarrow> acts_of m m' = [] \<Longrightarrow> session_run m' acts m'' \<Longrightarrow> session_run m acts m''"
  using run_step [of m m' acts m''] by simp

lemma run_visible:
  "session_step m m' \<Longrightarrow> acts_of m m' = [a] \<Longrightarrow> session_run m' acts m'' \<Longrightarrow> session_run m (a # acts) m''"
  using run_step [of m m' acts m''] by simp

section \<open>A sequential call is a run of the machine\<close>

text \<open>
  What one call of \<open>Query\<close> does to the pipe, from what the pipe and the agent do: nothing
  when the request, the name or a closed session refuses it; otherwise a dial unless there
  is a connection, and an exchange on the connection there is then.
\<close>

definition Query_acts ::
  "(gostr \<Rightarrow> io_error + conn) \<Rightarrow> byte list \<Rightarrow> session \<Rightarrow> act list" where
  "Query_acts dial request s =
     (let exchanged = (\<lambda>c. Exchanged (snd (fst (exchange c request)) = None)) in
      if ValidateRequest request \<noteq> None \<or> \<not> localPipeName (pipe_name s) \<or> session_closed s then []
      else case (session_conn s, dial (pipe_name s)) of
             (Some c, _) \<Rightarrow> [exchanged c]
           | (None, Inl _) \<Rightarrow> [Dialled False]
           | (None, Inr c) \<Rightarrow> [Dialled True, exchanged c])"

text \<open>
  A machine state with no call in progress that shows a session's fields: the flag, whether
  there is a connection and that it alone is open, and how often the session dialled and
  how many connections it opened.
\<close>

definition shows_session :: "session_sys \<Rightarrow> session \<Rightarrow> bool" where
  "shows_session m s \<longleftrightarrow> query_at m = Q_idle \<and> pending m = {}
     \<and> sys_closed m = session_closed s
     \<and> (sys_conn m = None \<longleftrightarrow> session_conn s = None)
     \<and> open_conns m = set_option (sys_conn m)
     \<and> dials m = session_dials s
     \<and> opened m = length (session_released s) + (if session_conn s = None then 0 else 1)"

lemma failing_query_run:
  assumes "query_at m = Q_failed" "\<not> sys_closed m"
  shows "session_run m [] ((take_conn m)\<lparr>query_at := Q_idle, open_conns := open_conns m - set_option (sys_conn m)\<rparr>)"
proof -
  let ?m1 = "(take_conn m)\<lparr>query_at := Q_releasing (sys_conn m)\<rparr>"
  let ?m2 = "?m1\<lparr>query_at := Q_idle, open_conns := open_conns ?m1 - set_option (sys_conn m)\<rparr>"
  have 1: "session_step m ?m1" using assms by (rule q_close)
  have 2: "session_step ?m1 ?m2" by (rule q_release) simp
  have "session_run m [] ?m2"
    by (rule run_silent [OF 1 _ run_silent [OF 2 _ run_none]]) (simp_all add: acts_of_def assms(1))
  then show ?thesis by (simp add: take_conn_def)
qed

lemma exchanging_run:
  assumes "query_at m = Q_exchanging c" "sys_conn m = Some c" "\<not> sys_closed m" "open_conns m = {c}"
    and "pending m = {}" "dials m = session_dials s" "opened m = Suc (length (session_released s))"
    and "\<not> session_closed s"
  shows "\<exists>m'. session_run m [Exchanged (snd (fst (exchange k request)) = None)] m'
    \<and> shows_session m' (snd (query_on k request s))"
proof (cases "snd (fst (exchange k request))")
  case None
  let ?m = "m\<lparr>query_at := Q_idle\<rparr>"
  have "session_step m ?m" using assms(1) by (rule q_succeeds)
  then have "session_run m [Exchanged True] ?m"
    by (rule run_visible [OF _ _ run_none]) (simp_all add: acts_of_def assms(1))
  moreover have "shows_session ?m (snd (query_on k request s))"
    using assms None by (auto simp: shows_session_def query_on_def Let_def split: prod.splits)
  ultimately show ?thesis using None by auto
next
  case (Some e)
  let ?m = "m\<lparr>query_at := Q_failed\<rparr>"
  have step: "session_step m ?m" using assms(1) by (rule q_fails)
  have "session_run ?m [] ((take_conn ?m)\<lparr>query_at := Q_idle,
      open_conns := open_conns ?m - set_option (sys_conn ?m)\<rparr>)" (is "session_run _ _ ?m'")
    by (rule failing_query_run) (simp_all add: assms(3))
  then have "session_run m [Exchanged False] ?m'"
    by (rule run_visible [OF step, rotated]) (simp add: acts_of_def assms(1))
  moreover have "shows_session ?m' (snd (query_on k request s))"
    using assms Some
    by (auto simp: shows_session_def query_on_def Let_def Close_def take_conn_def split: prod.splits)
  ultimately show ?thesis using Some by auto
qed

lemma Query_cases:
  obtains (refused) "snd (Query dial request s) = s" "Query_acts dial request s = []"
    | (connected) k where "\<not> session_closed s" "session_conn s = Some k"
        "Query dial request s = query_on k request s"
        "Query_acts dial request s = [Exchanged (snd (fst (exchange k request)) = None)]"
    | (dial_fails) "\<not> session_closed s" "session_conn s = None"
        "snd (Query dial request s) = snd (Close (s\<lparr>session_dials := Suc (session_dials s)\<rparr>))"
        "Query_acts dial request s = [Dialled False]"
    | (dial_succeeds) k where "\<not> session_closed s" "session_conn s = None"
        "Query dial request s
           = query_on k request (s\<lparr>session_dials := Suc (session_dials s), session_conn := Some k\<rparr>)"
        "Query_acts dial request s = [Dialled True, Exchanged (snd (fst (exchange k request)) = None)]"
proof (cases "ValidateRequest request = None \<and> localPipeName (pipe_name s) \<and> \<not> session_closed s")
  case False
  then have "snd (Query dial request s) = s" "Query_acts dial request s = []"
    by (auto simp: Query_def Query_acts_def Let_def split: option.split)
  then show ?thesis by (rule refused)
next
  case True
  show ?thesis
  proof (cases "session_conn s")
    case None
    show ?thesis
      by (cases "dial (pipe_name s)")
        (use True None in \<open>auto simp: Query_def Query_acts_def dial_pipe_def Let_def
           intro: dial_fails dial_succeeds\<close>)
  next
    case (Some k)
    with True show ?thesis
      by (intro connected [of k]) (simp_all add: Query_def Query_acts_def Let_def)
  qed
qed

lemma Query_is_a_run:
  assumes "shows_session m s"
  shows "\<exists>m'. session_run m (Query_acts dial request s) m' \<and> shows_session m' (snd (Query dial request s))"
proof -
  let ?m1 = "m\<lparr>query_at := Q_checked\<rparr>"
  let ?m2 = "?m1\<lparr>query_at := Q_dialling, dials := Suc (dials ?m1)\<rparr>"
  note shown = assms [unfolded shows_session_def]
  have enter: "session_step m ?m1" using shown by (intro q_enter) simp
  have quiet: "acts_of m ?m1 = []" "acts_of ?m1 ?m2 = []"
    "acts_of ?m1 (?m1\<lparr>query_at := Q_exchanging c\<rparr>) = []" for c
    using shown by (simp_all add: acts_of_def)
  show ?thesis
  proof (cases rule: Query_cases [of dial request s])
    case refused
    with assms run_none show ?thesis by metis
  next
    case (connected k)
    then obtain c where c: "sys_conn m = Some c" using shown by auto
    have "session_step ?m1 (?m1\<lparr>query_at := Q_exchanging c\<rparr>)"
      by (rule q_see_conn) (use shown c connected in simp_all)
    moreover obtain m' where "session_run (?m1\<lparr>query_at := Q_exchanging c\<rparr>) (Query_acts dial request s) m'"
      "shows_session m' (snd (Query dial request s))"
      using exchanging_run [of "?m1\<lparr>query_at := Q_exchanging c\<rparr>" c s k request] shown c connected by auto
    ultimately show ?thesis using run_silent [OF enter quiet(1) run_silent [OF _ quiet(3)]] by blast
  next
    case dial_fails
    let ?m3 = "?m2\<lparr>query_at := Q_failed\<rparr>"
    let ?m4 = "(take_conn ?m3)\<lparr>query_at := Q_idle, open_conns := open_conns ?m3 - set_option (sys_conn ?m3)\<rparr>"
    have s12: "session_step ?m1 ?m2" by (rule q_see_none) (use shown dial_fails in simp_all)
    have s23: "session_step ?m2 ?m3" by (rule q_dial_fails) simp
    have "session_run ?m3 [] ?m4" by (rule failing_query_run) (use shown dial_fails in simp_all)
    then have "session_run m [Dialled False] ?m4"
      by (rule run_silent [OF enter quiet(1) run_silent [OF s12 quiet(2) run_visible [OF s23, rotated]]])
        (simp add: acts_of_def)
    moreover have "shows_session ?m4 (snd (Query dial request s))"
      using shown dial_fails by (simp add: shows_session_def Close_def take_conn_def)
    ultimately show ?thesis using dial_fails(4) by auto
  next
    case (dial_succeeds k)
    let ?m3 = "?m2\<lparr>query_at := Q_dialled (opened ?m2), opened := Suc (opened ?m2),
       open_conns := insert (opened ?m2) (open_conns ?m2)\<rparr>"
    let ?m4 = "?m3\<lparr>query_at := Q_exchanging (opened ?m2), sys_conn := Some (opened ?m2)\<rparr>"
    have s12: "session_step ?m1 ?m2" by (rule q_see_none) (use shown dial_succeeds in simp_all)
    have s23: "session_step ?m2 ?m3" by (rule q_dial_succeeds) simp
    have s34: "session_step ?m3 ?m4" by (rule q_install) (use shown dial_succeeds in simp_all)
    obtain m' where run: "session_run ?m4 [Exchanged (snd (fst (exchange k request)) = None)] m'"
      and m': "shows_session m' (snd (Query dial request s))"
      using exchanging_run [of ?m4 "opened ?m2"
          "s\<lparr>session_dials := Suc (session_dials s), session_conn := Some k\<rparr>" k request]
        shown dial_succeeds by auto
    have "session_run ?m2 (Query_acts dial request s) m'"
      unfolding dial_succeeds(4)
      by (rule run_visible [OF s23 _ run_silent [OF s34 _ run]]) (simp_all add: acts_of_def)
    then have "session_run m (Query_acts dial request s) m'"
      by (rule run_silent [OF enter quiet(1) run_silent [OF s12 quiet(2)]])
    with m' show ?thesis by blast
  qed
qed

text \<open>The reply of the call reports a transport error exactly when an action of it failed.\<close>

lemma exchange_error:
  "snd (fst (exchange c request)) = Some e \<Longrightarrow> transport_error e"
  by (auto simp: exchange_def read_reply_def fail_reply_def Let_def transport_error_def
      split: prod.splits option.splits if_splits)

lemma query_on_reply [simp]: "fst (query_on c request s) = fst (exchange c request)"
  by (simp add: query_on_def Let_def split: prod.split)

lemma Query_acts_failed:
  "(\<exists>e. snd (fst (Query dial request s)) = Some e \<and> transport_error e)
     \<longleftrightarrow> Dialled False \<in> set (Query_acts dial request s) \<or> Exchanged False \<in> set (Query_acts dial request s)"
  by (auto simp: Query_def Query_acts_def dial_pipe_def Let_def transport_error_def [of "Invalid_request _"]
      transport_error_def [of Pipe_not_local] transport_error_def [of Session_closed]
      transport_error_def [of "Connect_failed _"] exchange_error
      split: option.splits sum.splits)

end
