(* ===== verification/PropsAgent.thy ===== *)
theory PropsAgent
  imports SessionConc
begin

text \<open>
  The properties of \<^verbatim>\<open>openssh/agent.go\<close> and \<^verbatim>\<open>openssh/keys.go\<close>: frames, exchanges, sessions,
  key lists, sign requests and displayed text.
\<close>

section \<open>Examples used by the witnesses\<close>

text \<open>
  A peer that delivers a five-byte reply in three pieces and takes the request in two, a
  pipe name, and the request for the identities.
\<close>

definition example_conn :: conn where
  "example_conn = \<lparr>rd_script = [([0, 0], None), ([0], None), ([1, 6, 7], None)],
     wr_script = [(2, None), (3, None)], rd_deadlines = [], wr_deadlines = [], sent = []\<rparr>"

definition example_request :: "byte list" where
  "example_request = [0, 0, 0, 1, 11]"

definition example_pipe :: gostr where
  "example_pipe = dot_pipe @ lit ''openssh-ssh-agent''"

lemma example_reply_valid: "ValidateResponse [0, 0, 0, 1, 6] = None"
  by (simp add: ValidateResponse_def validateFrame_def AgentMaxResponseLength_def SSH_AGENT_FAIL_def)

lemma example_request_valid: "ValidateRequest example_request = None"
  by (simp add: example_request_def ValidateRequest_def validateFrame_def AgentMaxMessageLength_def)

lemma example_pipe_local: "localPipeName example_pipe"
  by (simp add: example_pipe_def localPipeName_def dot_pipe_def lit_def ToLower_def rune_lower_def
      encode_rune_def Let_def)

section \<open>Frames\<close>

text \<open>
  C20: \<open>ValidateRequest\<close> accepts exactly the frames of a non-empty payload of at most 16379
  bytes under their own length, and \<open>ValidateResponse\<close> those of a payload of at most 256
  KiB, where a payload that starts with the failure byte is that byte alone.
\<close>

theorem validation_exact:
  "(ValidateRequest frame = None \<longleftrightarrow>
      (\<exists>payload. payload \<noteq> [] \<and> length payload \<le> 16379 \<and> frame = frame_of payload))
   \<and> (ValidateResponse frame = None \<longleftrightarrow>
      (\<exists>payload. payload \<noteq> [] \<and> length payload \<le> 262144 \<and> frame = frame_of payload
         \<and> (hd payload = SSH_AGENT_FAIL \<longrightarrow> payload = [SSH_AGENT_FAIL])))"
  by (rule conjI [OF ValidateRequest_iff ValidateResponse_iff])

theorem validation_exact_witness:
  "\<exists>payload. payload \<noteq> [] \<and> length payload \<le> 16379 \<and> example_request = frame_of payload"
  using validation_exact [of example_request] example_request_valid by blast

section \<open>Exchanges\<close>

text \<open>
  C6: an exchange that reports no error sent exactly the request, after what was sent
  before, and consumed exactly one reply frame from the peer's bytes, however the peer and
  the kernel cut reads and writes.
\<close>

theorem exchange_exact:
  assumes "exchange c request = ((reply, None), c')"
  shows "sent c' = sent c @ request \<and> stream c = reply @ stream c' \<and> ValidateResponse reply = None"
  using exchange_success [OF assms] by blast

text \<open>
  C7: the converse. When the deadlines can be set, the writer takes the request in any
  positive pieces and the reader delivers a valid reply frame in any pieces, the exchange
  returns that reply and leaves what follows it.
\<close>

theorem exchange_returns_reply:
  assumes "hd (wr_deadlines c @ [None]) = None" and "hd (rd_deadlines c @ [None]) = None"
    and "wr_script c = map (\<lambda>n. (int n, None)) ns @ script" and "list_all (\<lambda>n. 0 < n) ns"
    and "sum_list ns = length request"
    and "clean_reads c" and "stream c = reply @ rest" and "ValidateResponse reply = None"
  shows "\<exists>c'. exchange c request = ((reply, None), c') \<and> stream c' = rest \<and> sent c' = sent c @ request"
  using exchange_complete [OF assms] by blast

theorem exchange_returns_reply_witness:
  "\<exists>c'. exchange example_conn example_request = (([0, 0, 0, 1, 6], None), c') \<and> stream c' = [7]
     \<and> sent c' = sent example_conn @ example_request"
  by (rule exchange_returns_reply [where ns = "[2, 3]" and script = "[]"])
    (simp_all add: example_conn_def example_request_def clean_reads_def stream_def example_reply_valid)

theorem exchange_exact_witness:
  "\<exists>c'. sent c' = sent example_conn @ example_request \<and> stream example_conn = [0, 0, 0, 1, 6] @ stream c'
     \<and> ValidateResponse [0, 0, 0, 1, 6] = None"
proof -
  obtain c' where "exchange example_conn example_request = (([0, 0, 0, 1, 6], None), c')"
    using exchange_complete [of example_conn "[2, 3]" "[]" example_request "[0, 0, 0, 1, 6]" "[7]"]
    by (auto simp: example_conn_def example_request_def clean_reads_def stream_def example_reply_valid)
  from exchange_exact [OF this] show ?thesis by blast
qed

text \<open>
  On any connection at all, an exchange returns a valid reply frame, the failure frame
  whenever it reports an error, and puts nothing on the wire but a prefix of the request.
\<close>

lemma exchange_always_framed:
  "good_reply (fst (exchange c request))
   \<and> (\<exists>k. sent (snd (exchange c request)) = sent c @ take k request)"
  using exchange_good exchange_sends_prefix [of c request] by (metis prod.collapse)

section \<open>Sessions\<close>

text \<open>
  C8: an error on the transport retires the session, and a retired session leaves the pipe
  alone. The call that failed dialled at most once, and only without a connection; the
  session is closed, holds no connection, and has closed the one it used, as the failed
  exchange left it. Every later request gets the failure frame and an error, without
  another dial and without a byte more on any connection: the session, with its count of
  dials and the connections it released, stays as it is.
\<close>

theorem transport_error_is_final:
  assumes "Query dial request s = ((reply, Some e), s')" and "transport_error e"
    and "run_queries (Query dial) requests s' = (replies, s'')"
  shows "reply = genericFailResponse \<and> session_closed s' \<and> session_conn s' = None
    \<and> session_dials s' = session_dials s + (if session_conn s = None then 1 else 0)
    \<and> session_released s' = session_released s
        @ (case (session_conn s, dial (pipe_name s)) of
             (Some c, _) \<Rightarrow> [snd (exchange c request)]
           | (None, Inr c) \<Rightarrow> [snd (exchange c request)]
           | (None, Inl _) \<Rightarrow> [])
    \<and> list_all (\<lambda>r. fst r = genericFailResponse \<and> snd r \<noteq> None) replies
    \<and> session_dials s'' = session_dials s' \<and> session_released s'' = session_released s' \<and> s'' = s'"
proof -
  have e: "snd (fst (Query dial request s)) = Some e" and s': "snd (Query dial request s) = s'"
    using assms(1) by simp_all
  have closed: "session_closed s'" using session.error_retires [OF e assms(2)] s' by simp
  then show ?thesis
    using Query_retires [OF e assms(2)] session.retired_run [OF closed, of dial requests] assms(1,3) s'
      Query_good [of dial request s]
    by (simp add: good_reply_def)
qed

theorem transport_error_is_final_witness:
  "session_dials (snd (run_queries (Query (\<lambda>_. Inl (Os_error 2))) [example_request, example_request]
     (NewSession example_pipe))) = 1"
proof -
  let ?dial = "\<lambda>_. Inl (Os_error 2)"
  obtain s1 where 1: "Query ?dial example_request (NewSession example_pipe)
      = ((genericFailResponse, Some (Connect_failed (Os_error 2))), s1)"
    by (simp add: Query_def dial_pipe_def example_request_valid NewSession_def example_pipe_local)
  obtain rs s2 where 2: "run_queries (Query ?dial) [example_request] s1 = (rs, s2)"
    by (metis prod.exhaust)
  have "session_dials s2 = 1"
    using transport_error_is_final [OF 1 _ 2] by (simp add: transport_error_def NewSession_def)
  with 1 2 show ?thesis by (simp add: Let_def split: prod.splits)
qed

text \<open>
  C9: whatever calls of \<open>Query\<close> and \<open>Close\<close> overlap, a session dials at most once and opens
  at most one connection; a closed session keeps none; and once the calls in progress are
  over, a closed session has left no connection open.
\<close>

theorem session_never_redials:
  assumes "reach init_session session_step m"
  shows "dials m \<le> 1 \<and> opened m \<le> 1 \<and> (sys_closed m \<longrightarrow> sys_conn m = None)
    \<and> (sys_closed m \<and> query_at m = Q_idle \<and> pending m = {} \<longrightarrow> open_conns m = {})"
  using session_machine.reach_inv [OF assms] unfolding session_inv_def by auto

theorem session_never_redials_witness:
  "\<exists>m :: session_sys. sys_closed m \<and> dials m \<le> 1 \<and> opened m \<le> 1 \<and> sys_conn m = None \<and> open_conns m = {}"
proof -
  define m0 where "m0 = \<lparr>sys_closed = False, sys_conn = None, query_at = Q_idle, pending = {},
     open_conns = {}, dials = 0, opened = 0\<rparr>"
  define m1 where "m1 = (take_conn m0)\<lparr>pending := pending m0 \<union> set_option (sys_conn m0)\<rparr>"
  have "reach init_session session_step m0" by (rule reach_init) (simp add: init_session_def m0_def)
  moreover have "session_step m0 m1" unfolding m1_def by (rule close) (simp add: m0_def)
  ultimately have r: "reach init_session session_step m1" by (rule reach_step)
  have "sys_closed m1" "query_at m1 = Q_idle" "pending m1 = {}"
    by (simp_all add: m1_def m0_def take_conn_def)
  with session_never_redials [OF r] have "sys_closed m1 \<and> dials m1 \<le> 1 \<and> opened m1 \<le> 1
      \<and> sys_conn m1 = None \<and> open_conns m1 = {}" by simp
  then show ?thesis by (rule exI)
qed

text \<open>
  C10: the sequential \<open>Query\<close> refines the machine of overlapping calls, action by action.
  From a machine state that shows the session the machine has a run to one that shows the
  session the call leaves, with the same numbers of dials and of opened connections and
  only the session's own connection open; and the actions of that run are those the pipe
  and the agent call for: a dial exactly when there is no connection, succeeding when the
  pipe does, and an exchange exactly on a connection, failing when it reports an error. The
  call reports a transport error exactly when one of its actions failed; in the machine
  that is what closes the session.
\<close>

theorem Query_refines_machine:
  assumes "shows_session m s" and "Query dial request s = (r, s')"
  shows "(\<exists>m'. session_run m (Query_acts dial request s) m' \<and> shows_session m' s')
    \<and> ((\<exists>e. snd r = Some e \<and> transport_error e) \<longleftrightarrow>
        Dialled False \<in> set (Query_acts dial request s) \<or> Exchanged False \<in> set (Query_acts dial request s))"
  using Query_is_a_run [OF assms(1), of dial request] Query_acts_failed [of dial request s] assms(2)
  by simp

theorem Query_refines_machine_witness:
  "\<exists>m' s'. session_run \<lparr>sys_closed = False, sys_conn = None, query_at = Q_idle, pending = {},
       open_conns = {}, dials = 0, opened = 0\<rparr> [Dialled False] m' \<and> shows_session m' s'"
proof -
  let ?dial = "\<lambda>_. Inl (Os_error 2)" and ?s = "NewSession example_pipe"
  let ?m = "\<lparr>sys_closed = False, sys_conn = None, query_at = Q_idle, pending = {},
       open_conns = {}, dials = 0, opened = 0\<rparr>"
  have "shows_session ?m ?s" by (simp add: shows_session_def NewSession_def)
  moreover obtain r s' where q: "Query ?dial example_request ?s = (r, s')" by (metis prod.exhaust)
  ultimately have "\<exists>m'. session_run ?m (Query_acts ?dial example_request ?s) m' \<and> shows_session m' s'"
    using Query_refines_machine by blast
  then show ?thesis
    by (auto simp: Query_acts_def Let_def example_request_valid NewSession_def example_pipe_local)
qed

text \<open>
  C21: the one-shot query refuses exactly the valid requests that bind a session, without
  dialling.
\<close>

theorem QueryAgent_refuses_binding:
  "snd (QueryAgent dial pipeName request) = Some Bind_needs_session \<longleftrightarrow>
     (\<exists>rest. request = frame_of (27 # put_string (lit ''session-bind@openssh.com'') @ rest)
        \<and> length (27 # put_string (lit ''session-bind@openssh.com'') @ rest) \<le> 16379)"
proof -
  have "snd (fst (Query dial request s)) \<noteq> Some Bind_needs_session" for s
  proof -
    have "snd (fst (exchange c request)) \<noteq> Some Bind_needs_session" for c
      by (auto simp: exchange_def read_reply_def fail_reply_def Let_def split: prod.split option.split)
    then show ?thesis
      by (auto simp: Query_def dial_pipe_def query_on_def Let_def split_def split: option.split sum.split)
  qed
  then have "snd (QueryAgent dial pipeName request) = Some Bind_needs_session \<longleftrightarrow>
      ValidateRequest request = None \<and> isSessionBind request"
    by (auto simp: QueryAgent_def)
  also have "\<dots> \<longleftrightarrow> (\<exists>p. p \<noteq> [] \<and> length p \<le> 16379 \<and> request = frame_of p \<and> isSessionBind (frame_of p))"
    by (auto simp: ValidateRequest_iff)
  also have "\<dots> \<longleftrightarrow> (\<exists>p rest. p = 27 # put_string (lit ''session-bind@openssh.com'') @ rest
      \<and> length p \<le> 16379 \<and> request = frame_of p)"
    by (auto simp: isSessionBind_iff)
  finally show ?thesis by blast
qed

section \<open>Keys and signatures\<close>

text \<open>
  C19: \<open>parseKeys\<close> accepts exactly the frames of a well-formed identities answer, and returns
  its entries in order: the type of the key blob, the fingerprint of the blob, the comment
  made displayable.
\<close>

theorem parseKeys_exact:
  "parseKeys reply = Inr ks \<longleftrightarrow>
     (\<exists>es. list_all entry_ok es \<and> length (identities_payload es) \<le> 262144
        \<and> reply = frame_of (identities_payload es) \<and> ks = map key_of es)"
  by (rule parseKeys_spec)

text \<open>
  No proper prefix of a key list's payload passes for a key list.
\<close>

lemma parseKeys_rejects_truncation:
  assumes "list_all entry_ok es" and "length (identities_payload es) \<le> 262144"
    and "i < length (identities_payload es)"
  shows "parseKeys (frame_of (take i (identities_payload es))) \<noteq> Inr ks"
  using parseKeys_truncated_aux [OF assms] .


text \<open>
  C18: a sign request names a user exactly when the signed data is the RFC 4252
  authentication payload (plain or host-bound) for the very key that signs; the name shown
  is the payload's user name made displayable.
\<close>

theorem sign_request_username:
  "ParseSignRequest frame = Some s \<and> sign_username s \<noteq> [] \<longleftrightarrow>
     (\<exists>blob data flags username. string_ok blob \<and> string_ok data \<and> length flags = 4
        \<and> length (sign_payload blob data flags) \<le> 16379
        \<and> frame = frame_of (sign_payload blob data flags)
        \<and> publicKeyType blob = Some (sign_key_type s) \<and> sign_fingerprint s = fingerprint blob
        \<and> userauth_payload data blob username \<and> sign_username s = displayText username 256)"
proof -
  have named: "sign_username s = userauthUsername data blob \<and> sign_username s \<noteq> [] \<longleftrightarrow>
      (\<exists>username. userauth_payload data blob username \<and> sign_username s = displayText username 256)" for data blob
    using userauthUsername_spec [of data blob "sign_username s"] by (simp only: eq_commute)
  show ?thesis
    unfolding ParseSignRequest_spec using named by blast
qed

text \<open>
  The fingerprint shown is the literal \<open>SHA256:\<close> and 43 characters that decode to the
  SHA-256 digest of the key blob.
\<close>

lemma fingerprint_shows_digest:
  "take 7 (fingerprint blob) = lit ''SHA256:'' \<and> length (fingerprint blob) = 50
   \<and> base64_decode (drop 7 (fingerprint blob)) = sha256 blob"
  by (simp add: length_fingerprint fingerprint_digest) (simp add: fingerprint_def)

section \<open>Displayed text\<close>

text \<open>
  C34: \<open>displayText\<close> shows the first \<open>limit\<close> runes of a text with every control, format and
  line-separating one blanked, and an ellipsis exactly when some are left out; the result
  holds no NUL byte and no line break.
\<close>

theorem displayText_shows:
  "runes_of (displayText v limit) =
     map (blank_if hidden_in_display) (take limit (runes_of v))
     @ (if length (runes_of v) > limit then [0x2026] else [])
   \<and> 0 \<notin> set (displayText v limit)
   \<and> {10, 13} \<inter> set (runes_of (displayText v limit)) = {}"
  using display.clean_no_NUL [of v limit] display.clean_no_newline [of v limit]
  by (simp add: runes_of_displayText)

section \<open>A pipe name that is not one\<close>

text \<open>
  C40: exactly which names \<open>localPipeName\<close> accepts: those without a NUL whose first nine
  characters are \<open>\\.\pipe\\<close> or \<open>\\?\pipe\\<close> in any case and that go on after them; and, because
  the prefix is looked for in a lower-cased copy and the length measured on the name itself,
  those whose \<open>i\<close> is U+0130, two bytes that lower-case to one, although nothing may follow:
  there is such a name whose lower-cased form is the bare prefix.
\<close>

theorem localPipeName_exact:
  "(localPipeName name \<longleftrightarrow>
      0 \<notin> set name
      \<and> map rune_lower (take 9 (runes_of name))
          \<in> {[92, 92, 46, 92, 112, 105, 112, 101, 92], [92, 92, 63, 92, 112, 105, 112, 101, 92]}
      \<and> (9 < length (runes_of name) \<or> 0x130 \<in> set (runes_of name)))
   \<and> (\<exists>bare. localPipeName bare \<and> ToLower bare = [92, 92, 46, 92] @ lit ''pipe'' @ [92])"
proof -
  let ?name = "[92, 92, 46, 92, 112, 0xC4, 0xB0, 112, 101, 92] :: gostr"
  have "runes_of ([0xC4, 0xB0] @ [112, 101, 92]) = 0x130 # runes_of [112, 101, 92]"
    by (rule runes_of_next) (simp add: next_multi_def in_range_def)
  then have "runes_of ?name = [92, 92, 46, 92, 112, 0x130, 112, 101, 92]" by simp
  then have bare: "ToLower ?name = dot_pipe"
    by (simp add: ToLower_def rune_lower_def encode_rune_def dot_pipe_def lit_def)
  have "localPipeName ?name"
    using bare by (simp add: localPipeName_def Let_def) (simp add: dot_pipe_def)
  with bare have "\<exists>bare. localPipeName bare \<and> ToLower bare = [92, 92, 46, 92] @ lit ''pipe'' @ [92]"
    unfolding dot_pipe_def by (intro exI [of _ ?name] conjI)
  then show ?thesis
    using localPipeName_runes [of name] by (simp only: pipe_prefix_bytes)
qed

end
