(* ===== verification/NetAddr.thy ===== *)
theory NetAddr
  imports GoStrings
begin

text \<open>
  Network addresses as text, from Go's \<open>net\<close> package: when \<open>net.ParseIP\<close> accepts a string,
  how \<open>net.IP.String\<close> prints an address, and \<open>net.JoinHostPort\<close>.
\<close>

section \<open>net.ParseIP\<close>

abbreviation dot_byte :: byte where "dot_byte \<equiv> 46"
abbreviation colon_byte :: byte where "colon_byte \<equiv> 58"
abbreviation percent_byte :: byte where "percent_byte \<equiv> 37"

text \<open>One decimal field of an IPv4 address: no leading zero, at most 255.\<close>

definition ipv4_field :: "gostr \<Rightarrow> bool" where
  "ipv4_field f \<longleftrightarrow> f \<noteq> [] \<and> list_all is_digit f \<and> (length f > 1 \<longrightarrow> hd f \<noteq> 48)
     \<and> length f \<le> 3 \<and> decimal_value f \<le> 255"

fun split_byte :: "byte \<Rightarrow> gostr \<Rightarrow> gostr list" where
  "split_byte sep [] = [[]]"
| "split_byte sep (b # bs) =
     (if b = sep then [] # split_byte sep bs
      else case split_byte sep bs of
             [] \<Rightarrow> [[b]]
           | f # fs \<Rightarrow> (b # f) # fs)"

definition parse_ipv4 :: "gostr \<Rightarrow> bool" where
  "parse_ipv4 s \<longleftrightarrow> (let fs = split_byte dot_byte s in length fs = 4 \<and> list_all ipv4_field fs)"

text \<open>
  The IPv6 loop: \<open>i\<close> bytes are filled, \<open>ell\<close> says whether \<open>::\<close> was seen. An ellipsis must
  stand for at least one group, and without one all sixteen bytes must be there.
\<close>

definition v6_finish :: "nat \<Rightarrow> bool \<Rightarrow> gostr \<Rightarrow> bool" where
  "v6_finish i ell s \<longleftrightarrow> s = [] \<and> (if i < 16 then ell else \<not> ell)"

function v6_loop :: "nat \<Rightarrow> bool \<Rightarrow> gostr \<Rightarrow> bool" where
  "v6_loop i ell s =
     (if i \<ge> 16 then v6_finish i ell s
      else let off = length (takeWhile is_hex_digit s); rest = drop off s in
        if off = 0 \<or> off > 4 then False
        else if rest \<noteq> [] \<and> hd rest = dot_byte then
          (if (\<not> ell \<and> i \<noteq> 12) \<or> i + 4 > 16 then False
           else parse_ipv4 s \<and> v6_finish (i + 4) ell [])
        else if rest = [] then v6_finish (i + 2) ell []
        else if hd rest \<noteq> colon_byte \<or> length rest = 1 then False
        else if hd (tl rest) = colon_byte then
          (if ell then False
           else if tl (tl rest) = [] then v6_finish (i + 2) True []
           else v6_loop (i + 2) True (tl (tl rest)))
        else v6_loop (i + 2) ell (tl rest))"
  by pat_completeness auto
termination
  by (relation "measure (\<lambda>(i, ell, s). 16 - i)") auto

declare v6_loop.simps [simp del]

definition parse_ipv6 :: "gostr \<Rightarrow> bool" where
  "parse_ipv6 s \<longleftrightarrow>
     (if prefix [colon_byte, colon_byte] s
      then (let rest = drop 2 s in rest = [] \<or> v6_loop 0 True rest)
      else v6_loop 0 False s)"

text \<open>
  \<open>net.ParseIP(s) != nil\<close>: the first of dot, colon and percent decides; a zone is refused.
\<close>

definition ParseIP :: "gostr \<Rightarrow> bool" where
  "ParseIP s \<longleftrightarrow>
     (case find (\<lambda>b. b = dot_byte \<or> b = colon_byte \<or> b = percent_byte) s of
        None \<Rightarrow> False
      | Some b \<Rightarrow>
          if b = dot_byte then parse_ipv4 s
          else if b = colon_byte then percent_byte \<notin> set s \<and> parse_ipv6 s
          else False)"

section \<open>Printing addresses\<close>

definition ipv4_string :: "byte list \<Rightarrow> gostr" where
  "ipv4_string bs =
     (case map (\<lambda>b. Itoa (unat b)) bs of
        [a, b, c, d] \<Rightarrow> a @ [dot_byte] @ b @ [dot_byte] @ c @ [dot_byte] @ d
      | _ \<Rightarrow> [])"

text \<open>Hexadecimal without leading zeros.\<close>

fun hex_string :: "nat \<Rightarrow> gostr" where
  "hex_string n =
     (if n < 16 then [byte_of (if n < 10 then 48 + n else 87 + n)]
      else hex_string (n div 16) @ [byte_of (if n mod 16 < 10 then 48 + n mod 16 else 87 + n mod 16)])"

declare hex_string.simps [simp del]

fun groups_of :: "byte list \<Rightarrow> nat list" where
  "groups_of (a # b # bs) = (unat a * 256 + unat b) # groups_of bs"
| "groups_of _ = []"

definition zero_run_at :: "nat list \<Rightarrow> nat \<Rightarrow> nat" where
  "zero_run_at gs i = length (takeWhile (\<lambda>g. g = 0) (drop i gs))"

text \<open>The first of the longest runs of at least two zero groups: its start and length.\<close>

definition longest_zero_run :: "nat list \<Rightarrow> (nat \<times> nat) option" where
  "longest_zero_run gs =
     foldl (\<lambda>best i.
        let n = zero_run_at gs i in
        case best of
          None \<Rightarrow> if n \<ge> 2 then Some (i, n) else None
        | Some (_, m) \<Rightarrow> if n \<ge> 2 \<and> n > m then Some (i, n) else best)
       None [0..<length gs]"

fun join_groups :: "nat list \<Rightarrow> gostr" where
  "join_groups [] = []"
| "join_groups [g] = hex_string g"
| "join_groups (g # gs) = hex_string g @ [colon_byte] @ join_groups gs"

text \<open>
  \<open>net.IP.String\<close> of sixteen bytes: an IPv4-mapped address prints as IPv4, any other in the
  compressed form.
\<close>

definition ipv6_string :: "byte list \<Rightarrow> gostr" where
  "ipv6_string bs =
     (if take 12 bs = replicate 10 0 @ [255, 255] then ipv4_string (drop 12 bs)
      else let gs = groups_of bs in
        case longest_zero_run gs of
          None \<Rightarrow> join_groups gs
        | Some (i, n) \<Rightarrow>
            join_groups (take i gs) @ [colon_byte, colon_byte] @ join_groups (drop (i + n) gs))"

text \<open>\<open>net.JoinHostPort\<close> brackets a host that holds a colon.\<close>

definition JoinHostPort :: "gostr \<Rightarrow> gostr \<Rightarrow> gostr" where
  "JoinHostPort host port =
     (if colon_byte \<in> set host then [91] @ host @ [93, colon_byte] @ port
      else host @ [colon_byte] @ port)"

text \<open>Host and port can be read back from the joined form: it names one endpoint.\<close>

lemma digits_no_colon: "list_all is_digit p \<Longrightarrow> colon_byte \<notin> set p"
  by (auto simp: list_all_iff is_digit_def)

lemma JoinHostPort_inject:
  assumes "JoinHostPort h p = JoinHostPort h' p'" "list_all is_digit p" "list_all is_digit p'"
  shows "h = h' \<and> p = p'"
proof -
  note nc = digits_no_colon [OF assms(2)] digits_no_colon [OF assms(3)]
  have "(if colon_byte \<in> set h then [91] @ h @ [93] else h) = (if colon_byte \<in> set h' then [91] @ h' @ [93] else h') \<and> p = p'"
    using assms(1) nc by (intro last_sep_unique [where c = colon_byte]) (auto simp: JoinHostPort_def split: if_splits)
  then show ?thesis
    by (cases "colon_byte \<in> set h"; cases "colon_byte \<in> set h'") auto
qed

end
