(* ===== verification/ClientTarget.thy ===== *)
theory ClientTarget
  imports NetAddr
begin

text \<open>
  The destination inferred from an SSH client's command line
  (\<^verbatim>\<open>pageant/client_windows.go\<close>): \<open>parseClientTarget\<close>, \<open>parseDestination\<close>,
  \<open>safeTargetField\<close>, \<open>safeHost\<close> and \<open>resolvePuttySession\<close>.

  \<open>net/url.Parse\<close> is the argument \<open>url_parse\<close>: every property holds for whatever it
  answers. The registry of saved PuTTY sessions is an argument too.
\<close>

section \<open>Data\<close>

record connectionTarget =
  target_user :: gostr
  target_host :: gostr
  target_port :: u16
  target_source :: gostr
  target_session :: gostr

definition no_target :: connectionTarget where
  "no_target = \<lparr>target_user = [], target_host = [], target_port = 0,
     target_source = [], target_session = []\<rparr>"

text \<open>The parts of a parsed URL the program reads; the user with whether a password follows.\<close>

record url_parts =
  url_hostname :: gostr
  url_path :: gostr
  url_rawquery :: gostr
  url_fragment :: gostr
  url_user :: "(gostr \<times> bool) option"
  url_port :: gostr

section \<open>Safe fields\<close>

definition unsafe_rune :: "rune \<Rightarrow> bool" where
  "unsafe_rune r \<longleftrightarrow> is_space r \<or> is_control r \<or> is_cf r"

definition safeTargetField :: "gostr \<Rightarrow> gostr" where
  "safeTargetField value =
     (if value = [] \<or> length value > 253 then []
      else if list_ex unsafe_rune (runes_of value) then []
      else value)"

text \<open>The characters \<open>/ \ @ " '\<close> by their codes.\<close>

definition safeHost :: "gostr \<Rightarrow> gostr" where
  "safeHost host =
     (if safeTargetField host = [] \<or> list_ex (\<lambda>b. b \<in> {47, 92, 64, 34, 39}) host
         \<or> prefix (lit ''-'') host then []
      else if colon_byte \<in> set host \<and> \<not> ParseIP (before_first percent_byte host) then []
      else host)"

definition safe_field :: "gostr \<Rightarrow> bool" where
  "safe_field v \<longleftrightarrow> length v \<le> 253 \<and> list_all (\<lambda>r. \<not> unsafe_rune r) (runes_of v)"

definition safe_host :: "gostr \<Rightarrow> bool" where
  "safe_host h \<longleftrightarrow> safe_field h \<and> set h \<inter> {47, 92, 64, 34, 39} = {} \<and> \<not> prefix (lit ''-'') h
     \<and> (colon_byte \<in> set h \<longrightarrow> ParseIP (before_first percent_byte h))"

lemma safe_field_Nil [simp]: "safe_field []"
  by (simp add: safe_field_def)

lemma safe_host_Nil [simp]: "safe_host []"
  by (simp add: safe_host_def lit_def)

lemma safeTargetField_safe [simp]: "safe_field (safeTargetField v)"
  by (auto simp: safeTargetField_def safe_field_def list_all_iff list_ex_iff)

lemma safeTargetField_id: "safe_field v \<Longrightarrow> safeTargetField v = v"
  by (auto simp: safeTargetField_def safe_field_def list_all_iff list_ex_iff)

lemma safeHost_safe [simp]: "safe_host (safeHost h)"
proof (cases "safeHost h = []")
  case False
  then have "safeHost h = h" "safeTargetField h \<noteq> []"
    by (auto simp: safeHost_def split: if_splits)
  moreover have "safe_field h"
    using calculation(2) safeTargetField_safe [of h] by (auto simp: safeTargetField_def split: if_splits)
  ultimately show ?thesis
    using False by (auto simp: safeHost_def safe_host_def list_ex_iff split: if_splits)
qed simp

lemma safeHost_id: "safe_host h \<Longrightarrow> safeHost h = h"
  by (auto simp: safe_host_def safeHost_def safeTargetField_id list_ex_iff)

section \<open>Destinations\<close>

definition positive_port :: "gostr \<Rightarrow> u16 option" where
  "positive_port value =
     (case ParseUint10 value 16 of
        None \<Rightarrow> None
      | Some port \<Rightarrow> if port = 0 then None else Some (u16_of port))"

definition parse_url_destination ::
  "(gostr \<Rightarrow> url_parts option) \<Rightarrow> connectionTarget \<Rightarrow> gostr \<Rightarrow> connectionTarget" where
  "parse_url_destination url_parse target value =
     (case url_parse value of
        None \<Rightarrow> target
      | Some parsed \<Rightarrow>
          if url_hostname parsed = [] \<or> (url_path parsed \<noteq> [] \<and> url_path parsed \<noteq> lit ''/'')
             \<or> url_rawquery parsed \<noteq> [] \<or> url_fragment parsed \<noteq> [] then target
          else if (case url_user parsed of Some (_, hasPassword) \<Rightarrow> hasPassword | None \<Rightarrow> False) then target
          else
            let target = (case url_user parsed of
                  Some (username, _) \<Rightarrow>
                    if target_user target = [] then target\<lparr>target_user := safeTargetField username\<rparr>
                    else target
                | None \<Rightarrow> target);
              target = (if target_host target = []
                then target\<lparr>target_host := safeHost (url_hostname parsed)\<rparr> else target)
            in if url_port parsed \<noteq> [] then
                 (case positive_port (url_port parsed) of
                    None \<Rightarrow> target\<lparr>target_host := []\<rparr>
                  | Some port \<Rightarrow>
                      if target_port target = 0 then target\<lparr>target_port := port\<rparr> else target)
               else target)"

definition parseDestination ::
  "(gostr \<Rightarrow> url_parts option) \<Rightarrow> connectionTarget \<Rightarrow> gostr \<Rightarrow> connectionTarget" where
  "parseDestination url_parse target value =
     (if prefix (lit ''ssh://'') (ToLower value) then parse_url_destination url_parse target value
      else
        let (target, value) =
          (case split_last 64 value of
             None \<Rightarrow> (target, value)
           | Some (user_part, host_part) \<Rightarrow>
               ((if target_user target = [] then target\<lparr>target_user := safeTargetField user_part\<rparr>
                 else target), host_part))
        in if target_host target = []
           then target\<lparr>target_host := safeHost (Trim value [91, 93])\<rparr>
           else target)"

section \<open>Options\<close>

definition no_value_flags :: "bool \<Rightarrow> gostr" where
  "no_value_flags ssh =
     (if ssh then lit '' -4 -6 -A -a -C -f -G -g -K -k -M -N -n -q -s -T -t -V -v -X -x -Y -y ''
      else lit '' -ssh -2 -4 -6 -batch -agent -noagent -A -a -C -N -T -t -v -x -X -share -noshare -no-antispoof '')"

definition value_flags :: "bool \<Rightarrow> gostr" where
  "value_flags ssh =
     (if ssh then lit '' -B -b -c -D -E -e -F -I -i -J -L -l -m -O -o -P -p -Q -R -S -W -w ''
      else lit '' -l -P -load -pw -pwfile -i -m -L -R -D -nc -proxycmd -hostkey -loghost -sercfg -sessionlog -sshlog -sshrawlog '')"

text \<open>\<open>strings.Contains(flags, " " + option + " ")\<close>.\<close>

definition flag_in :: "gostr \<Rightarrow> gostr \<Rightarrow> bool" where
  "flag_in option_name flags \<longleftrightarrow> sublist (lit '' '' @ option_name @ lit '' '') flags"

text \<open>The \<open>switch\<close> over an option and its value; \<open>None\<close> abandons the command line.\<close>

definition apply_ssh_o :: "gostr \<Rightarrow> connectionTarget \<Rightarrow> connectionTarget option" where
  "apply_ssh_o value target =
     (case FieldsFunc value (\<lambda>r. r = 61 \<or> is_space r) of
        [name, v] \<Rightarrow>
          let name = ToLower name in
          if name = lit ''user'' then Some (target\<lparr>target_user := safeTargetField v\<rparr>)
          else if name = lit ''hostname'' then Some (target\<lparr>target_host := safeHost v\<rparr>)
          else if name = lit ''port'' then
            (case positive_port v of
               None \<Rightarrow> None
             | Some port \<Rightarrow> Some (target\<lparr>target_port := port\<rparr>))
          else Some target
      | _ \<Rightarrow> Some target)"

definition apply_option :: "bool \<Rightarrow> gostr \<Rightarrow> gostr \<Rightarrow> connectionTarget \<Rightarrow> connectionTarget option" where
  "apply_option ssh option_name value target =
     (if option_name = lit ''-l'' then Some (target\<lparr>target_user := safeTargetField value\<rparr>)
      else if (ssh \<and> option_name = lit ''-p'') \<or> (\<not> ssh \<and> option_name = lit ''-P'') then
        (case positive_port value of
           None \<Rightarrow> None
         | Some port \<Rightarrow> Some (target\<lparr>target_port := port\<rparr>))
      else if \<not> ssh \<and> option_name = lit ''-load'' then Some (target\<lparr>target_session := value\<rparr>)
      else if ssh \<and> option_name = lit ''-o'' then apply_ssh_o value target
      else Some target)"

text \<open>An \<open>ssh\<close> option with its value attached: \<open>-lname\<close> and \<open>-pnumber\<close>.\<close>

definition split_attached :: "bool \<Rightarrow> gostr \<Rightarrow> gostr \<times> gostr" where
  "split_attached ssh arg =
     (if ssh \<and> length arg > 2 \<and> (arg ! 1 = 108 \<or> arg ! 1 = 112) then (take 2 arg, drop 2 arg)
      else (arg, []))"

definition repeated_v :: "bool \<Rightarrow> gostr \<Rightarrow> bool" where
  "repeated_v ssh arg \<longleftrightarrow> ssh \<and> length arg > 2 \<and> Trim (tl arg) (lit ''v'') = []"

section \<open>The scan\<close>

fun scan_args ::
  "(gostr \<Rightarrow> url_parts option) \<Rightarrow> bool \<Rightarrow> bool \<Rightarrow> bool \<Rightarrow> connectionTarget \<Rightarrow> gostr list \<Rightarrow> connectionTarget"
where
  "scan_args url_parse ssh puttyGUI hasDestination target [] = target"
| "scan_args url_parse ssh puttyGUI hasDestination target (arg # rest) =
     (if arg = lit ''--'' then
        (case rest of
           [] \<Rightarrow> target
         | next_arg # _ \<Rightarrow> parseDestination url_parse target next_arg)
      else if \<not> prefix (lit ''-'') arg then
        (if hasDestination then no_target
         else
           let target = parseDestination url_parse target arg in
           if puttyGUI then scan_args url_parse ssh puttyGUI True target rest else target)
      else
        let (option_name, attached) = split_attached ssh arg in
        if repeated_v ssh arg then scan_args url_parse ssh puttyGUI hasDestination target rest
        else if flag_in option_name (no_value_flags ssh) then
          scan_args url_parse ssh puttyGUI hasDestination target rest
        else if \<not> flag_in option_name (value_flags ssh) then no_target
        else if attached \<noteq> [] then
          (case apply_option ssh option_name attached target of
             None \<Rightarrow> no_target
           | Some target \<Rightarrow> scan_args url_parse ssh puttyGUI hasDestination target rest)
        else
          (case rest of
             [] \<Rightarrow> no_target
           | value # rest' \<Rightarrow>
               (case apply_option ssh option_name value target of
                  None \<Rightarrow> no_target
                | Some target \<Rightarrow> scan_args url_parse ssh puttyGUI hasDestination target rest')))"

definition parseClientTarget ::
  "(gostr \<Rightarrow> url_parts option) \<Rightarrow> gostr \<Rightarrow> gostr list \<Rightarrow> connectionTarget" where
  "parseClientTarget url_parse app args =
     (let ssh = EqualFold app (lit ''ssh.exe''); puttyGUI = EqualFold app (lit ''putty.exe'') in
      if \<not> ssh \<and> \<not> puttyGUI \<and> \<not> EqualFold app (lit ''plink.exe'')
         \<and> \<not> EqualFold app (lit ''tortoisegitplink.exe'') then no_target
      else scan_args url_parse ssh puttyGUI False
             (no_target\<lparr>target_source := lit ''inferred client arguments''\<rparr>) args)"

section \<open>Every field it returns is safe to show\<close>

definition safe_target :: "connectionTarget \<Rightarrow> bool" where
  "safe_target t \<longleftrightarrow> safe_field (target_user t) \<and> safe_host (target_host t)"

lemma safe_no_target [simp]: "safe_target no_target" "safe_target (no_target\<lparr>target_source := x\<rparr>)"
  by (simp_all add: safe_target_def no_target_def)

lemma safe_target_updates [simp]:
  "safe_target t \<Longrightarrow> safe_target (t\<lparr>target_user := safeTargetField v\<rparr>)"
  "safe_target t \<Longrightarrow> safe_target (t\<lparr>target_host := safeHost v\<rparr>)"
  "safe_target t \<Longrightarrow> safe_target (t\<lparr>target_host := []\<rparr>)"
  "safe_target t \<Longrightarrow> safe_target (t\<lparr>target_port := p\<rparr>)"
  "safe_target t \<Longrightarrow> safe_target (t\<lparr>target_session := s\<rparr>)"
  "safe_target t \<Longrightarrow> safe_target (t\<lparr>target_source := s\<rparr>)"
  by (simp_all add: safe_target_def)

lemma parse_url_destination_safe: "safe_target t \<Longrightarrow> safe_target (parse_url_destination u t v)"
  by (auto simp: parse_url_destination_def Let_def split: option.split)

lemma parseDestination_safe: "safe_target t \<Longrightarrow> safe_target (parseDestination u t v)"
  by (auto simp: parseDestination_def Let_def parse_url_destination_safe split: option.split)

lemma apply_option_safe:
  "apply_option ssh opt v t = Some t' \<Longrightarrow> safe_target t \<Longrightarrow> safe_target t'"
  by (auto simp: apply_option_def apply_ssh_o_def Let_def split: if_splits option.splits list.splits)

lemma safe_target_cases:
  "(c \<Longrightarrow> safe_target a) \<Longrightarrow> (\<not> c \<Longrightarrow> safe_target b) \<Longrightarrow> safe_target (if c then a else b)"
  "(p = None \<Longrightarrow> safe_target a) \<Longrightarrow> (\<And>y. p = Some y \<Longrightarrow> safe_target (f y))
    \<Longrightarrow> safe_target (case p of None \<Rightarrow> a | Some y \<Rightarrow> f y)"
  "(xs = [] \<Longrightarrow> safe_target a) \<Longrightarrow> (\<And>y ys. xs = y # ys \<Longrightarrow> safe_target (g y ys))
    \<Longrightarrow> safe_target (case xs of [] \<Rightarrow> a | y # ys \<Rightarrow> g y ys)"
  by (simp_all split: option.split list.split)

lemma scan_args_safe: "safe_target t \<Longrightarrow> safe_target (scan_args u ssh gui d t args)"
proof (induction args arbitrary: d t rule: length_induct)
  case (1 args)
  then have ih: "safe_target (scan_args u ssh gui d' t' args')"
    if "safe_target t'" "length args' < length args" for d' t' args'
    using that by blast
  note opt = apply_option_safe [OF _ \<open>safe_target t\<close>]
  show ?case
  proof (cases args)
    case (Cons arg rest)
    show ?thesis
      unfolding Cons scan_args.simps Let_def split_def
      by (intro safe_target_cases ih) 
        (simp_all add: Cons parseDestination_safe \<open>safe_target t\<close> opt)
  qed (use 1 in simp)
qed

lemma parseClientTarget_safe: "safe_target (parseClientTarget u app args)"
  by (auto simp: parseClientTarget_def Let_def intro: scan_args_safe)

section \<open>What the scan does not look at\<close>

text \<open>
  For ssh, plink and TortoiseGitPlink the words after the destination are the remote
  command: they never matter.
\<close>

lemma scan_stops_at_destination:
  assumes "\<not> prefix (lit ''-'') dest"
  shows "scan_args u ssh False False t (dest # rest) = parseDestination u t dest"
  using assms by (auto simp: Let_def lit_def)

text \<open>Options whose value the program must not show: passwords, commands, key files.\<close>

definition interpreted_option :: "bool \<Rightarrow> gostr \<Rightarrow> bool" where
  "interpreted_option ssh option_name \<longleftrightarrow>
     option_name = lit ''-l'' \<or> (if ssh then option_name \<in> {lit ''-p'', lit ''-o''}
                                 else option_name \<in> {lit ''-P'', lit ''-load''})"

lemma apply_option_ignores:
  "\<not> interpreted_option ssh option_name \<Longrightarrow> apply_option ssh option_name v t = Some t"
  by (auto simp: interpreted_option_def apply_option_def split: if_splits)

lemma scan_ignores_value:
  assumes "prefix (lit ''-'') opt" "opt \<noteq> lit ''--''" "split_attached ssh opt = (opt, [])"
    and "\<not> interpreted_option ssh opt"
  shows "scan_args u ssh gui d t (opt # v # rest) =
    (if repeated_v ssh opt \<or> flag_in opt (no_value_flags ssh) then scan_args u ssh gui d t (v # rest)
     else if flag_in opt (value_flags ssh) then scan_args u ssh gui d t rest else no_target)"
  using assms by (simp add: Let_def apply_option_ignores)

section \<open>Saved PuTTY sessions\<close>

text \<open>
  The values of a session key, with \<open>None\<close> for a failed read of the protocol or port (the
  host and user read as empty then), and the registry: \<open>None\<close> when the list of sessions
  cannot be read, an entry's value \<open>None\<close> when its key cannot be opened.
\<close>

record putty_session =
  reg_protocol :: "gostr option"
  reg_host :: gostr
  reg_user :: gostr
  reg_port :: "nat option"

type_synonym putty_registry = "(gostr \<times> putty_session option) list option"

text \<open>\<open>url.PathUnescape\<close>: percent escapes only; a malformed escape is an error.\<close>

fun PathUnescape :: "gostr \<Rightarrow> gostr option" where
  "PathUnescape [] = Some []"
| "PathUnescape (b # bs) =
     (if b = percent_byte then
        (case bs of
           h # l # rest \<Rightarrow>
             if is_hex_digit h \<and> is_hex_digit l
             then map_option ((#) (byte_of (hex_value h * 16 + hex_value l))) (PathUnescape rest)
             else None
         | _ \<Rightarrow> None)
      else map_option ((#) b) (PathUnescape bs))"

definition merge_session :: "connectionTarget \<Rightarrow> putty_session \<Rightarrow> connectionTarget" where
  "merge_session target saved =
     (if (case reg_protocol saved of None \<Rightarrow> False | Some protocol \<Rightarrow> protocol \<noteq> lit ''ssh'')
      then no_target
      else
        let target = (if target_host target = []
              then target\<lparr>target_host := safeHost (reg_host saved)\<rparr> else target);
            target = (if target_user target = []
              then target\<lparr>target_user := safeTargetField (reg_user saved)\<rparr> else target);
            target = (if target_port target = 0
              then (case reg_port saved of
                      None \<Rightarrow> target
                    | Some port \<Rightarrow>
                        if port > 0 \<and> port \<le> 65535 then target\<lparr>target_port := u16_of port\<rparr> else target)
              else target)
        in target\<lparr>target_source := lit ''inferred PuTTY session''\<rparr>)"

fun resolve_loop :: "connectionTarget \<Rightarrow> (gostr \<times> putty_session option) list \<Rightarrow> connectionTarget" where
  "resolve_loop target [] = target"
| "resolve_loop target ((name, saved) # names) =
     (if PathUnescape name \<noteq> Some (target_session target) then resolve_loop target names
      else case saved of
             None \<Rightarrow> target
           | Some s \<Rightarrow> merge_session target s)"

definition resolvePuttySession :: "putty_registry \<Rightarrow> connectionTarget \<Rightarrow> connectionTarget" where
  "resolvePuttySession reg target =
     (case reg of None \<Rightarrow> target | Some names \<Rightarrow> resolve_loop target names)"

lemma merge_session_safe: "safe_target t \<Longrightarrow> safe_target (merge_session t s)"
  by (auto simp: merge_session_def Let_def split: option.split)

lemma resolve_loop_safe: "safe_target t \<Longrightarrow> safe_target (resolve_loop t names)"
  by (induction t names rule: resolve_loop.induct) (auto simp: merge_session_safe split: option.split)

lemma resolvePuttySession_safe: "safe_target t \<Longrightarrow> safe_target (resolvePuttySession reg t)"
  by (auto simp: resolvePuttySession_def resolve_loop_safe split: option.split)

end
