(* ===== verification/TcpTable.thy ===== *)
theory TcpTable
  imports ClientTarget "HOL-Library.AList"
begin

text \<open>
  The network endpoint of a client process (\<^verbatim>\<open>pageant/client_windows.go\<close>):
  \<open>parseTCPTable\<close> reads the table of \<open>GetExtendedTcpTable\<close>, \<open>processTCPTargets\<close> asks
  for it with a buffer that may have to grow, and \<open>uniqueTCPTarget\<close> answers only when
  the process has exactly one established remote endpoint over both address families.

  The system call is an argument: for each family, the attempt's number and the buffer
  size, it gives the result code, the size it reports and the bytes it wrote.
\<close>

section \<open>One table\<close>

abbreviation AF_INET :: u32 where "AF_INET \<equiv> 2"
abbreviation AF_INET6 :: u32 where "AF_INET6 \<equiv> 23"
abbreviation TCP_ESTABLISHED :: u32 where "TCP_ESTABLISHED \<equiv> 5"

text \<open>Row size, offset of the state and offset of the owner's PID.\<close>

definition table_layout :: "u32 \<Rightarrow> (nat \<times> nat \<times> nat) option" where
  "table_layout family =
     (if family = AF_INET6 then Some (56, 48, 52)
      else if family = AF_INET then Some (24, 0, 20)
      else None)"

text \<open>The slice \<open>bs[lo:hi]\<close>.\<close>

definition slice :: "nat \<Rightarrow> nat \<Rightarrow> byte list \<Rightarrow> byte list" where
  "slice lo hi bs = take (hi - lo) (drop lo bs)"

definition row_target :: "u32 \<Rightarrow> byte list \<Rightarrow> connectionTarget" where
  "row_target family row =
     (let target = no_target\<lparr>target_source := lit ''inferred network endpoint''\<rparr> in
      if family = AF_INET then
        target\<lparr>target_host := ipv4_string (slice 12 16 row), target_port := be16 (slice 16 18 row)\<rparr>
      else
        let scope = le32 (slice 40 44 row) in
        target\<lparr>target_host := ipv6_string (slice 24 40 row) @
                 (if scope \<noteq> 0 then percent_byte # Itoa (unat scope) else []),
               target_port := be16 (slice 44 46 row)\<rparr>)"

definition row_matches :: "nat \<Rightarrow> nat \<Rightarrow> u32 \<Rightarrow> byte list \<Rightarrow> bool" where
  "row_matches stateOffset pidOffset pid row \<longleftrightarrow>
     le32 (drop stateOffset row) = TCP_ESTABLISHED \<and> le32 (drop pidOffset row) = pid"

text \<open>The loop from row \<open>i\<close> with \<open>n\<close> rows to go.\<close>

fun table_rows :: "u32 \<Rightarrow> nat \<times> nat \<times> nat \<Rightarrow> u32 \<Rightarrow> byte list \<Rightarrow> nat \<Rightarrow> nat \<Rightarrow> connectionTarget list" where
  "table_rows family lay pid buffer i 0 = []"
| "table_rows family (rowSize, stateOffset, pidOffset) pid buffer i (Suc n) =
     (let row = slice (4 + i * rowSize) (4 + (i + 1) * rowSize) buffer;
          rest = table_rows family (rowSize, stateOffset, pidOffset) pid buffer (i + 1) n in
      if \<not> row_matches stateOffset pidOffset pid row then rest
      else let target = row_target family row in
        if target_port target \<noteq> 0 then target # rest else rest)"

definition parseTCPTable :: "byte list \<Rightarrow> u32 \<Rightarrow> u32 \<Rightarrow> connectionTarget list option" where
  "parseTCPTable buffer pid family =
     (case table_layout family of
        None \<Rightarrow> None
      | Some (rowSize, stateOffset, pidOffset) \<Rightarrow>
          if length buffer < 4 then None
          else let count = unat (le32 buffer) in
            if count > (length buffer - 4) div rowSize then None
            else Some (table_rows family (rowSize, stateOffset, pidOffset) pid buffer 0 count))"

section \<open>The table as Windows lays it out\<close>

text \<open>
  A row of either family, and its bytes (\<open>MIB_TCPROW_OWNER_PID\<close> and
  \<open>MIB_TCP6ROW_OWNER_PID\<close>): a port takes four bytes, the first two in network order.
\<close>

record tcp_row =
  row_state :: u32
  row_local :: "byte list"
  row_raddr :: "byte list"
  row_scope :: u32
  row_rport :: u16
  row_port_pad :: "byte list"
  row_pid :: u32

definition put_row :: "u32 \<Rightarrow> tcp_row \<Rightarrow> byte list" where
  "put_row family r =
     (if family = AF_INET then
        put_le32 (row_state r) @ row_local r @ row_raddr r @ put_be16 (row_rport r) @ row_port_pad r
        @ put_le32 (row_pid r)
      else
        row_local r @ row_raddr r @ put_le32 (row_scope r) @ put_be16 (row_rport r) @ row_port_pad r
        @ put_le32 (row_state r) @ put_le32 (row_pid r))"

definition row_ok :: "u32 \<Rightarrow> tcp_row \<Rightarrow> bool" where
  "row_ok family r \<longleftrightarrow> length (row_port_pad r) = 2 \<and>
     (if family = AF_INET then length (row_local r) = 8 \<and> length (row_raddr r) = 4
      else length (row_local r) = 24 \<and> length (row_raddr r) = 16)"

definition put_table :: "u32 \<Rightarrow> tcp_row list \<Rightarrow> byte list" where
  "put_table family rows = put_le32 (u32_of (length rows)) @ concat (map (put_row family) rows)"

definition target_of_row :: "u32 \<Rightarrow> tcp_row \<Rightarrow> connectionTarget" where
  "target_of_row family r =
     \<lparr>target_user = [],
      target_host =
        (if family = AF_INET then ipv4_string (row_raddr r)
         else ipv6_string (row_raddr r) @
           (if row_scope r \<noteq> 0 then percent_byte # Itoa (unat (row_scope r)) else [])),
      target_port = row_rport r, target_source = lit ''inferred network endpoint'', target_session = []\<rparr>"

lemma slice_app:
  "length xs = lo \<Longrightarrow> length ys = hi - lo \<Longrightarrow> slice lo hi (xs @ ys @ zs) = ys"
  by (simp add: slice_def)

lemma put_row_fields:
  assumes "row_ok family r" "table_layout family = Some (rowSize, so, po)"
  shows "length (put_row family r) = rowSize"
    and "row_matches so po pid (put_row family r) \<longleftrightarrow> row_state r = TCP_ESTABLISHED \<and> row_pid r = pid"
    and "row_target family (put_row family r) = target_of_row family r"
proof -
  obtain p1 p2 where pad: "row_port_pad r = [p1, p2]"
    using assms(1) by (auto simp: row_ok_def numeral_2_eq_2 length_Suc_conv)
  have fam: "family = AF_INET \<and> rowSize = 24 \<and> so = 0 \<and> po = 20
      \<or> family = AF_INET6 \<and> rowSize = 56 \<and> so = 48 \<and> po = 52"
    using assms(2) by (auto simp: table_layout_def split: if_splits)
  have le: "le32 (put_le32 w) = w" for w
    using le32_put_le32 [of w "[]"] by simp
  have be: "be16 (put_be16 w) = w" for w
    using be16_put_be16 [of w "[]"] by simp
  show "length (put_row family r) = rowSize"
    using fam assms(1) by (auto simp: put_row_def row_ok_def)
  show "row_matches so po pid (put_row family r) \<longleftrightarrow> row_state r = TCP_ESTABLISHED \<and> row_pid r = pid"
    using fam assms(1) by (auto simp: put_row_def row_ok_def row_matches_def le)
  show "row_target family (put_row family r) = target_of_row family r"
    using fam assms(1)
    by (auto simp: put_row_def row_ok_def row_target_def target_of_row_def slice_def no_target_def
        Let_def le be pad)
qed

lemma table_rows_put:
  assumes "table_layout family = Some lay" "\<forall>r \<in> set rows. row_ok family r"
    and "length pre = 4 + i * fst lay"
  shows "table_rows family lay pid (pre @ concat (map (put_row family) rows) @ slack) i (length rows)
    = map (target_of_row family)
        (filter (\<lambda>r. row_state r = TCP_ESTABLISHED \<and> row_pid r = pid \<and> row_rport r \<noteq> 0) rows)"
  using assms(2,3)
proof (induction rows arbitrary: pre i)
  case (Cons r rows)
  obtain rs so po where lay: "lay = (rs, so, po)" by (cases lay) auto
  have ok: "row_ok family r" using Cons.prems by simp
  note f = put_row_fields [OF ok assms(1) [unfolded lay]]
  have row: "slice (4 + i * rs) (4 + (i + 1) * rs)
      (pre @ put_row family r @ concat (map (put_row family) rows) @ slack) = put_row family r"
    using Cons.prems lay f(1) by (intro slice_app) auto
  have "table_rows family lay pid ((pre @ put_row family r) @ concat (map (put_row family) rows) @ slack)
      (i + 1) (length rows)
    = map (target_of_row family)
        (filter (\<lambda>r. row_state r = TCP_ESTABLISHED \<and> row_pid r = pid \<and> row_rport r \<noteq> 0) rows)"
    by (rule Cons.IH) (use Cons.prems lay f(1) in auto)
  then show ?case
    using f(2) [of pid] f(3) row by (auto simp: lay Let_def target_of_row_def)
qed simp

text \<open>
  Reading a table Windows wrote, whatever slack follows it: the established rows of the
  process with a remote port, in order.
\<close>

lemma parseTCPTable_put:
  assumes "family = AF_INET \<or> family = AF_INET6" "\<forall>r \<in> set rows. row_ok family r"
    and "length rows < 2 ^ 32"
  shows "parseTCPTable (put_table family rows @ slack) pid family =
    Some (map (target_of_row family)
      (filter (\<lambda>r. row_state r = TCP_ESTABLISHED \<and> row_pid r = pid \<and> row_rport r \<noteq> 0) rows))"
proof -
  obtain rs so po where lay: "table_layout family = Some (rs, so, po)" and rs: "rs > 0"
    using assms(1) by (auto simp: table_layout_def)
  have total: "length (concat (map (put_row family) rows)) = length rows * rs"
    using assms(2) put_row_fields(1) [OF _ lay] by (induction rows) auto
  have count: "unat (le32 (put_table family rows @ slack)) = length rows"
    using assms(3) by (simp add: put_table_def)
  have room: "length rows \<le> (length (put_table family rows @ slack) - 4) div rs"
    using total rs by (simp add: put_table_def less_eq_div_iff_mult_less_eq)
  show ?thesis
    using table_rows_put [OF lay assms(2), of "put_le32 (u32_of (length rows))" 0 pid slack] count room
    by (simp add: parseTCPTable_def lay Let_def put_table_def)
qed

text \<open>A count that does not fit the buffer is refused.\<close>

lemma parseTCPTable_fits:
  "parseTCPTable buffer pid family = Some ts \<Longrightarrow>
   table_layout family = Some (rs, so, po) \<Longrightarrow> 4 + unat (le32 buffer) * rs \<le> length buffer"
  by (auto simp: parseTCPTable_def table_layout_def Let_def less_eq_div_iff_mult_less_eq split: if_splits)

lemma table_rows_targets:
  "t \<in> set (table_rows family lay pid buffer i n) \<Longrightarrow>
   target_port t \<noteq> 0 \<and> target_user t = [] \<and> target_session t = []
   \<and> target_source t = lit ''inferred network endpoint''"
  by (induction family lay pid buffer i n rule: table_rows.induct)
    (auto simp: Let_def row_target_def no_target_def split: if_splits)

lemma parseTCPTable_targets:
  "parseTCPTable buffer pid family = Some ts \<Longrightarrow> t \<in> set ts \<Longrightarrow>
   target_port t \<noteq> 0 \<and> target_user t = [] \<and> target_session t = []
   \<and> target_source t = lit ''inferred network endpoint''"
  by (auto simp: parseTCPTable_def Let_def dest: table_rows_targets split: option.splits prod.splits if_splits)

section \<open>Asking for the table\<close>

type_synonym tcp_call = "nat \<Rightarrow> nat \<Rightarrow> u32 \<times> nat \<times> byte list"

abbreviation ERROR_INSUFFICIENT_BUFFER :: u32 where "ERROR_INSUFFICIENT_BUFFER \<equiv> 122"

definition maxTableBytes :: nat where
  "maxTableBytes = 16 * 1024 * 1024"

text \<open>The buffer of \<open>len\<close> zero bytes after the call wrote into it.\<close>

definition filled :: "nat \<Rightarrow> byte list \<Rightarrow> byte list" where
  "filled len bs = take len bs @ replicate (len - length bs) 0"

fun table_attempts :: "tcp_call \<Rightarrow> u32 \<Rightarrow> u32 \<Rightarrow> nat \<Rightarrow> nat \<Rightarrow> nat \<Rightarrow> connectionTarget list option" where
  "table_attempts call pid family attempt len 0 = None"
| "table_attempts call pid family attempt len (Suc n) =
     (case call attempt len of
        (result, len', bytes) \<Rightarrow>
          if result = ERROR_INSUFFICIENT_BUFFER then
            (if len' < 4 \<or> len' > maxTableBytes then None
             else table_attempts call pid family (attempt + 1) len' n)
          else if result \<noteq> 0 then None
          else parseTCPTable (filled len bytes) pid family)"

definition processTCPTargets :: "(u32 \<Rightarrow> tcp_call) \<Rightarrow> u32 \<Rightarrow> u32 \<Rightarrow> connectionTarget list option" where
  "processTCPTargets os pid family =
     (case os family 0 0 of
        (result, len, _) \<Rightarrow>
          if result \<noteq> ERROR_INSUFFICIENT_BUFFER \<or> len < 4 \<or> len > maxTableBytes then None
          else table_attempts (os family) pid family 1 len 3)"

lemma table_attempts_targets:
  "table_attempts call pid family k len n = Some ts \<Longrightarrow> t \<in> set ts \<Longrightarrow>
   target_port t \<noteq> 0 \<and> target_user t = [] \<and> target_session t = []
   \<and> target_source t = lit ''inferred network endpoint''"
  by (induction call pid family k len n rule: table_attempts.induct)
    (auto dest: parseTCPTable_targets split: prod.splits if_splits)

lemma processTCPTargets_targets:
  "processTCPTargets os pid family = Some ts \<Longrightarrow> t \<in> set ts \<Longrightarrow>
   target_port t \<noteq> 0 \<and> target_user t = [] \<and> target_session t = []
   \<and> target_source t = lit ''inferred network endpoint''"
  by (auto simp: processTCPTargets_def dest: table_attempts_targets split: prod.splits if_splits)

section \<open>The one endpoint of a process\<close>

definition endpoint :: "connectionTarget \<Rightarrow> gostr" where
  "endpoint t = JoinHostPort (target_host t) (Itoa (unat (target_port t)))"

definition add_endpoint :: "connectionTarget \<Rightarrow> (gostr \<times> connectionTarget) list \<Rightarrow> (gostr \<times> connectionTarget) list" where
  "add_endpoint t all_targets = AList.update (endpoint t) t all_targets"

fun collect_endpoints ::
  "(u32 \<Rightarrow> tcp_call) \<Rightarrow> u32 \<Rightarrow> u32 list \<Rightarrow> (gostr \<times> connectionTarget) list
   \<Rightarrow> (gostr \<times> connectionTarget) list option" where
  "collect_endpoints os pid [] all_targets = Some all_targets"
| "collect_endpoints os pid (family # families) all_targets =
     (case processTCPTargets os pid family of
        None \<Rightarrow> None
      | Some entries \<Rightarrow> collect_endpoints os pid families (fold add_endpoint entries all_targets))"

definition uniqueTCPTarget :: "(u32 \<Rightarrow> tcp_call) \<Rightarrow> u32 \<Rightarrow> connectionTarget option" where
  "uniqueTCPTarget os pid =
     (case collect_endpoints os pid [AF_INET, AF_INET6] [] of
        Some [(_, target)] \<Rightarrow> Some target
      | _ \<Rightarrow> None)"

text \<open>Two network endpoints with the same printed address are the same target.\<close>

lemma endpoint_inject:
  assumes "endpoint s = endpoint t"
    and "target_user s = target_user t" "target_session s = target_session t"
    and "target_source s = target_source t"
  shows "s = t"
proof -
  have "target_host s = target_host t \<and> Itoa (unat (target_port s)) = Itoa (unat (target_port t))"
    using assms(1) Itoa_digits unfolding endpoint_def by (blast dest: JoinHostPort_inject)
  with assms(2-) show ?thesis
    by (cases s; cases t) (simp add: Itoa_inject word_unat_eq_iff)
qed

definition keyed :: "connectionTarget list \<Rightarrow> (gostr \<times> connectionTarget) list \<Rightarrow> bool" where
  "keyed seen ps \<longleftrightarrow> distinct (map fst ps) \<and> snd ` set ps = set seen \<and> (\<forall>(k, t) \<in> set ps. k = endpoint t)"

definition network_target :: "connectionTarget \<Rightarrow> bool" where
  "network_target t \<longleftrightarrow> target_user t = [] \<and> target_session t = []
     \<and> target_source t = lit ''inferred network endpoint''"

lemma network_endpoint: "network_target s \<Longrightarrow> network_target t \<Longrightarrow> endpoint s = endpoint t \<Longrightarrow> s = t"
  by (rule endpoint_inject) (simp_all add: network_target_def)

lemma set_update_same:
  "\<forall>p \<in> set ps. fst p = k \<longrightarrow> snd p = v \<Longrightarrow> set (AList.update k v ps) = insert (k, v) (set ps)"
  by (induction ps) (auto simp: insert_commute)

lemma keyed_add:
  assumes "keyed seen ps" "\<forall>s \<in> set (t # seen). network_target s"
  shows "keyed (t # seen) (add_endpoint t ps)"
proof -
  have "snd p = t" if "p \<in> set ps" "fst p = endpoint t" for p
  proof -
    have "snd p \<in> set seen" "endpoint (snd p) = endpoint t"
      using assms(1) that by (auto simp: keyed_def)
    then show ?thesis using assms(2) by (intro network_endpoint) auto
  qed
  then have "set (AList.update (endpoint t) t ps) = insert (endpoint t, t) (set ps)"
    by (intro set_update_same) blast
  then show ?thesis
    using assms by (auto simp: keyed_def add_endpoint_def distinct_update)
qed

lemma keyed_fold:
  "keyed seen ps \<Longrightarrow> \<forall>s \<in> set (ts @ seen). network_target s \<Longrightarrow>
   keyed (rev ts @ seen) (fold add_endpoint ts ps)"
proof (induction ts arbitrary: seen ps)
  case (Cons t ts)
  have "keyed (t # seen) (add_endpoint t ps)"
    using Cons.prems by (intro keyed_add) auto
  from Cons.IH [OF this] Cons.prems(2) show ?case by simp
qed simp

lemma keyed_single: "keyed seen ps \<Longrightarrow> (\<exists>k. ps = [(k, t)]) \<longleftrightarrow> seen \<noteq> [] \<and> set seen = {t}"
proof
  assume k: "keyed seen ps"
  { assume "\<exists>k. ps = [(k, t)]"
    with k show "seen \<noteq> [] \<and> set seen = {t}" by (auto simp: keyed_def) }
  { assume s: "seen \<noteq> [] \<and> set seen = {t}"
    have all: "\<forall>p \<in> set ps. p = (endpoint t, t)"
    proof
      fix p assume p: "p \<in> set ps"
      then have "snd p \<in> set seen" "fst p = endpoint (snd p)"
        using k by (auto simp: keyed_def)
      with s show "p = (endpoint t, t)" by (cases p) simp
    qed
    have "ps \<noteq> []" "distinct ps"
      using k s by (auto simp: keyed_def distinct_map)
    with all show "\<exists>k. ps = [(k, t)]"
      by (cases ps; cases "tl ps") auto }
qed

text \<open>
  The target is reported exactly when both tables could be read and every established
  remote endpoint of the process is that one.
\<close>

lemma uniqueTCPTarget_iff:
  "uniqueTCPTarget os pid = Some t \<longleftrightarrow>
   (\<exists>v4 v6. processTCPTargets os pid AF_INET = Some v4 \<and> processTCPTargets os pid AF_INET6 = Some v6
     \<and> set (v4 @ v6) = {t})"
proof (cases "processTCPTargets os pid AF_INET")
  case (Some v4)
  show ?thesis
  proof (cases "processTCPTargets os pid AF_INET6")
    case v6: (Some v6)
    let ?ps = "fold add_endpoint v6 (fold add_endpoint v4 [])"
    have net: "\<forall>s \<in> set (v4 @ v6). network_target s"
      using processTCPTargets_targets [OF Some] processTCPTargets_targets [OF v6]
      by (auto simp: network_target_def)
    have "keyed (rev v4 @ []) (fold add_endpoint v4 [])"
      using net by (intro keyed_fold) (auto simp: keyed_def)
    then have "keyed (rev v6 @ rev v4) ?ps"
      using net by (intro keyed_fold) auto
    from keyed_single [OF this, of t]
    have "(\<exists>k. ?ps = [(k, t)]) \<longleftrightarrow> set (v4 @ v6) = {t}" by auto
    moreover have "uniqueTCPTarget os pid = Some t \<longleftrightarrow> (\<exists>k. ?ps = [(k, t)])"
      by (auto simp: uniqueTCPTarget_def Some v6 split: list.split)
    ultimately show ?thesis using Some v6 by auto
  qed (simp_all add: uniqueTCPTarget_def Some)
qed (simp add: uniqueTCPTarget_def)

end
