(* ===== verification/Security.thy ===== *)
theory Security
  imports Prelude
begin

text \<open>
  Owner lookups of \<^verbatim>\<open>internal/security/security.go\<close> and the handles the program opens.

  A SID is its bytes; a Go \<open>*SID\<close> is an option. What the Windows calls answer is a record
  of functions: the theorems hold for every answer. The handles a process holds are
  explicit state, a list that \<open>open\<close> extends and \<open>CloseHandle\<close> shortens, so that a leak or a
  double close is visible.
\<close>

section \<open>Handles\<close>

type_synonym handle = nat
type_synonym sid = "byte list"

definition acquire :: "handle \<Rightarrow> handle list \<Rightarrow> handle list" where
  "acquire h hs = h # hs"

definition CloseHandle :: "handle \<Rightarrow> handle list \<Rightarrow> handle list" where
  "CloseHandle h hs = remove1 h hs"

lemma close_acquire [simp]: "CloseHandle h (acquire h hs) = hs"
  by (simp add: acquire_def CloseHandle_def)

lemma close_under_acquire [simp]: "CloseHandle h (acquire k (acquire h hs)) = acquire k hs"
  by (simp add: acquire_def CloseHandle_def)

section \<open>SIDs\<close>

text \<open>
  \<open>GetTokenUser\<close> of the current process token, \<open>GetSecurityInfo\<close> and \<open>Owner\<close> of a
  descriptor, \<open>IsValid\<close> and \<open>Copy\<close>. \<open>None\<close> in the outer place is an error; an inner
  \<open>None\<close> is a nil pointer.
\<close>

record security_os =
  os_process_user :: "sid option option"
  os_current_process :: handle
  os_security_info :: "handle \<Rightarrow> sid option option option"
  os_sid_valid :: "sid \<Rightarrow> bool"
  os_sid_copy :: "sid \<Rightarrow> sid option"

datatype sid_error = Token_user_error | Security_info_error | Owner_error | No_valid_SID | Copy_error

definition copyValidSID :: "('a) security_os_scheme \<Rightarrow> sid option \<Rightarrow> sid_error + sid" where
  "copyValidSID os p =
     (case p of
        None \<Rightarrow> Inl No_valid_SID
      | Some s \<Rightarrow>
          if \<not> os_sid_valid os s then Inl No_valid_SID
          else case os_sid_copy os s of None \<Rightarrow> Inl Copy_error | Some s' \<Rightarrow> Inr s')"

definition GetUserSID :: "('a) security_os_scheme \<Rightarrow> sid_error + sid" where
  "GetUserSID os =
     (case os_process_user os of None \<Rightarrow> Inl Token_user_error | Some p \<Rightarrow> copyValidSID os p)"

definition GetHandleSID :: "('a) security_os_scheme \<Rightarrow> handle \<Rightarrow> sid_error + sid" where
  "GetHandleSID os h =
     (case os_security_info os h of
        None \<Rightarrow> Inl Security_info_error
      | Some owner \<Rightarrow> (case owner of None \<Rightarrow> Inl Owner_error | Some p \<Rightarrow> copyValidSID os p))"

definition GetDefaultSID :: "('a) security_os_scheme \<Rightarrow> sid_error + sid" where
  "GetDefaultSID os = GetHandleSID os (os_current_process os)"

text \<open>\<open>Copy\<close> is documented to return an equal SID when it returns one.\<close>

definition copies_sids :: "('a) security_os_scheme \<Rightarrow> bool" where
  "copies_sids os \<longleftrightarrow> (\<forall>s s'. os_sid_copy os s = Some s' \<longrightarrow> s' = s)"

lemma copyValidSID_Inr:
  "copyValidSID os p = Inr s \<Longrightarrow> copies_sids os \<Longrightarrow> p = Some s \<and> os_sid_valid os s"
  by (auto simp: copyValidSID_def copies_sids_def split: option.splits if_splits)

lemma GetHandleSID_Inr:
  "GetHandleSID os h = Inr s \<Longrightarrow> copies_sids os \<Longrightarrow>
   os_security_info os h = Some (Some (Some s)) \<and> os_sid_valid os s"
  by (auto simp: GetHandleSID_def dest: copyValidSID_Inr split: option.splits)

lemma GetUserSID_Inr:
  "GetUserSID os = Inr s \<Longrightarrow> copies_sids os \<Longrightarrow>
   os_process_user os = Some (Some s) \<and> os_sid_valid os s"
  by (auto simp: GetUserSID_def dest: copyValidSID_Inr split: option.splits)

end
