(* ===== verification/ClientIdentity.thy ===== *)
theory ClientIdentity
  imports TcpTable Security
begin

text \<open>
  Who is asking (\<^verbatim>\<open>pageant/client_windows.go\<close>): the process behind a pipe connection or
  a shared-memory request, its name, start time and inferred destination. The answers of
  Windows are a record of functions; the handles opened along the way are threaded through.
\<close>

section \<open>Windows strings and paths\<close>

text \<open>
  \<open>windows.UTF16ToString\<close>: up to the first NUL, an unpaired surrogate kept as its three
  bytes.
\<close>

definition encode_wtf8 :: "rune \<Rightarrow> byte list" where
  "encode_wtf8 r =
     (if 0xD800 \<le> r \<and> r < 0xE000 then
        [byte_of (0xE0 + r div 4096), byte_of (0x80 + r div 64 mod 64), byte_of (0x80 + r mod 64)]
      else encode_rune r)"

fun decode_wtf16 :: "u16 list \<Rightarrow> rune list" where
  "decode_wtf16 [] = []"
| "decode_wtf16 [u] = [unat u]"
| "decode_wtf16 (u # v # us) =
     (if is_high u \<and> is_low v
      then ((unat u - 0xD800) * 1024 + (unat v - 0xDC00) + 0x10000) # decode_wtf16 us
      else unat u # decode_wtf16 (v # us))"

definition UTF16ToString :: "u16 list \<Rightarrow> gostr" where
  "UTF16ToString us = concat (map encode_wtf8 (decode_wtf16 (takeWhile (\<lambda>u. u \<noteq> 0) us)))"

text \<open>\<open>filepath.Base\<close> on Windows; \<open>92\<close> is the backslash, \<open>47\<close> the slash.\<close>

definition is_sep :: "byte \<Rightarrow> bool" where
  "is_sep b \<longleftrightarrow> b = 92 \<or> b = 47"

definition ascii_upper :: "byte \<Rightarrow> byte" where
  "ascii_upper b = (if 97 \<le> unat b \<and> unat b \<le> 122 then b - 32 else b)"

definition pathHasPrefixFold :: "gostr \<Rightarrow> gostr \<Rightarrow> bool" where
  "pathHasPrefixFold s pre \<longleftrightarrow>
     length pre \<le> length s
     \<and> list_all2 (\<lambda>a b. if is_sep b then is_sep a else ascii_upper a = ascii_upper b)
         (take (length pre) s) pre
     \<and> (length s > length pre \<longrightarrow> is_sep (s ! length pre))"

fun unc_scan :: "nat \<Rightarrow> nat \<Rightarrow> gostr \<Rightarrow> nat" where
  "unc_scan i count [] = i"
| "unc_scan i count (b # bs) =
     (if is_sep b then (if count = 1 then i else unc_scan (i + 1) (count + 1) bs)
      else unc_scan (i + 1) count bs)"

definition uncLen :: "gostr \<Rightarrow> nat \<Rightarrow> nat" where
  "uncLen path prefixLen = unc_scan prefixLen 0 (drop prefixLen path)"

definition volumeNameLen :: "gostr \<Rightarrow> nat" where
  "volumeNameLen path =
     (if length path \<ge> 2 \<and> path ! 1 = 58 then 2
      else if path = [] \<or> \<not> is_sep (path ! 0) then 0
      else if pathHasPrefixFold path [92, 92, 46, 92, 85, 78, 67] then min (uncLen path 8) (length path)
      else if pathHasPrefixFold path [92, 92, 46] \<or> pathHasPrefixFold path [92, 92, 63]
        \<or> pathHasPrefixFold path [92, 63, 63] then
        (if length path = 3 then 3
         else if list_ex is_sep (drop 4 path)
           then 4 + length (takeWhile (\<lambda>b. \<not> is_sep b) (drop 4 path))
           else length path)
      else if length path \<ge> 2 \<and> is_sep (path ! 1) then uncLen path 2
      else 0)"

definition strip_seps :: "gostr \<Rightarrow> gostr" where
  "strip_seps path = rev (dropWhile is_sep (rev path))"

definition Base :: "gostr \<Rightarrow> gostr" where
  "Base path =
     (if path = [] then lit ''.''
      else
        let path = strip_seps path;
            path = drop (volumeNameLen path) path;
            path = rev (takeWhile (\<lambda>b. \<not> is_sep b) (rev path))
        in if path = [] then [92] else path)"

lemma Base_no_sep: "Base path = [92] \<or> list_all (\<lambda>b. \<not> is_sep b) (Base path)"
  by (auto simp: Base_def Let_def list_all_iff lit_def is_sep_def dest: set_takeWhileD)

section \<open>Clients\<close>

record clientInfo =
  client_pid :: u32
  client_name :: gostr
  client_inferred :: bool
  client_started :: u64
  client_target :: connectionTarget

definition no_client :: clientInfo where
  "no_client = \<lparr>client_pid = 0, client_name = [], client_inferred = False, client_started = 0,
     client_target = no_target\<rparr>"

text \<open>
  The calls: \<open>OpenThread\<close>, \<open>GetProcessIdOfThread\<close>, \<open>OpenProcess\<close>, \<open>OpenProcessToken\<close>,
  \<open>GetTokenUser\<close>, \<open>QueryFullProcessImageName\<close> (the characters written),
  \<open>GetProcessTimes\<close> (high and low half of the creation time), \<open>NtQueryInformationProcess\<close>
  (present or not, the size it requires, and for a buffer of that size its status, the
  bytes it wrote and the buffer's address), \<open>DecomposeCommandLine\<close>,
  \<open>GetNamedPipeClientProcessId\<close>, and the arguments of \<open>ClientTarget\<close> and \<open>TcpTable\<close>.
\<close>

record client_os = security_os +
  os_open_thread :: "u32 \<Rightarrow> handle option"
  os_thread_pid :: "handle \<Rightarrow> u32"
  os_open_process :: "u32 \<Rightarrow> handle option"
  os_open_token :: "handle \<Rightarrow> handle option"
  os_token_user :: "handle \<Rightarrow> sid option"
  os_image_name :: "handle \<Rightarrow> u16 list option"
  os_process_times :: "handle \<Rightarrow> (u32 \<times> u32) option"
  os_has_ntquery :: bool
  os_required :: "handle \<Rightarrow> nat"
  os_query_command :: "handle \<Rightarrow> nat \<Rightarrow> u32 \<times> byte list \<times> nat"
  os_decompose :: "gostr \<Rightarrow> gostr list option"
  os_pipe_client :: "handle \<Rightarrow> u32 option"
  os_url_parse :: "gostr \<Rightarrow> url_parts option"
  os_registry :: putty_registry
  os_tcp_table :: "u32 \<Rightarrow> tcp_call"

subsection \<open>ownProcess\<close>

definition ownProcess :: "('a) client_os_scheme \<Rightarrow> u32 \<Rightarrow> handle list \<Rightarrow> handle option \<times> handle list" where
  "ownProcess os pid hs =
     (if pid = 0 then (None, hs)
      else case os_open_process os pid of
        None \<Rightarrow> (None, hs)
      | Some process \<Rightarrow>
          let hs = acquire process hs in
          (case os_open_token os process of
             None \<Rightarrow> (None, CloseHandle process hs)
           | Some token \<Rightarrow>
               let hs = acquire token hs in
               (case (os_token_user os token, GetUserSID os) of
                  (Some user, Inr ourSID) \<Rightarrow>
                    if user \<noteq> ourSID then (None, CloseHandle token (CloseHandle process hs))
                    else (Some process, CloseHandle token hs)
                | _ \<Rightarrow> (None, CloseHandle token (CloseHandle process hs)))))"

text \<open>The process runs as the user this process runs as.\<close>

definition same_user :: "('a) client_os_scheme \<Rightarrow> handle \<Rightarrow> bool" where
  "same_user os process \<longleftrightarrow>
     (\<exists>token user. os_open_token os process = Some token \<and> os_token_user os token = Some user
        \<and> GetUserSID os = Inr user)"

lemma ownProcess_cases:
  obtains (refused) "ownProcess os pid hs = (None, hs)"
  | (own) process where "ownProcess os pid hs = (Some process, acquire process hs)"
      "pid \<noteq> 0" "os_open_process os pid = Some process" "same_user os process"
proof (cases "fst (ownProcess os pid hs)")
  case None
  then have "ownProcess os pid hs = (None, hs)"
    by (auto simp: ownProcess_def Let_def split: if_splits option.splits sum.splits)
  then show ?thesis by (rule refused)
next
  case (Some process)
  then have "ownProcess os pid hs = (Some process, acquire process hs) \<and> pid \<noteq> 0
      \<and> os_open_process os pid = Some process \<and> same_user os process"
    by (auto simp: ownProcess_def Let_def same_user_def acquire_def CloseHandle_def
        split: if_splits option.splits sum.splits)
  then show ?thesis using own by blast
qed

subsection \<open>The command line\<close>

definition processStarted :: "('a) client_os_scheme \<Rightarrow> handle \<Rightarrow> u64" where
  "processStarted os process =
     (case os_process_times os process of
        None \<Rightarrow> 0
      | Some (hi, lo) \<Rightarrow> of_nat (unat hi * 2 ^ 32 + unat lo))"

abbreviation sizeof_NTUnicodeString :: nat where "sizeof_NTUnicodeString \<equiv> 16"

fun le_number :: "byte list \<Rightarrow> nat" where
  "le_number [] = 0"
| "le_number (b # bs) = unat b + 256 * le_number bs"

fun le16_list :: "byte list \<Rightarrow> u16 list" where
  "le16_list (a # b # bs) = u16_of (unat a + 256 * unat b) # le16_list bs"
| "le16_list _ = []"

text \<open>
  The window of the buffer that the returned structure designates, \<open>None\<close> when it is not
  a whole number of characters inside the buffer. The structure is \<open>Length\<close> and
  \<open>MaximumLength\<close> (two bytes each), padding, and an eight-byte pointer; addresses are
  compared as unsigned integers before they are subtracted.
\<close>

definition command_window :: "nat \<Rightarrow> byte list \<Rightarrow> (nat \<times> nat) option" where
  "command_window start buffer =
     (let len = le_number (slice 0 2 buffer); maxlen = le_number (slice 2 4 buffer);
          ptr = le_number (slice 8 16 buffer) in
      if len mod 2 \<noteq> 0 \<or> len > maxlen \<or> ptr < start \<or> ptr - start > length buffer
         \<or> len > length buffer - (ptr - start)
      then None else Some (ptr - start, len))"

definition processCommandLine :: "('a) client_os_scheme \<Rightarrow> handle \<Rightarrow> gostr" where
  "processCommandLine os process =
     (if \<not> os_has_ntquery os then []
      else let required = os_required os process in
        if required < sizeof_NTUnicodeString \<or> required > 128 * 1024 then []
        else case os_query_command os process required of
          (status, bytes, start) \<Rightarrow>
            if status \<noteq> 0 then []
            else let buffer = filled required bytes in
              (case command_window start buffer of
                 None \<Rightarrow> []
               | Some (off, len) \<Rightarrow>
                   encode_runes (utf16_decode (le16_list (slice off (off + len) buffer)))))"

text \<open>Only bytes of the buffer are read, and a whole number of UTF-16 units.\<close>

lemma command_window_inside:
  "command_window start buffer = Some (off, len) \<Longrightarrow>
   off + len \<le> length buffer \<and> even len \<and> length (slice off (off + len) buffer) = len"
  by (auto simp: command_window_def Let_def slice_def even_iff_mod_2_eq_zero split: if_splits)

subsection \<open>clientFromProcess\<close>

definition recognized_clients :: "gostr list" where
  "recognized_clients = [lit ''putty.exe'', lit ''plink.exe'', lit ''tortoisegitplink.exe'', lit ''ssh.exe'']"

definition inferred_target :: "('a) client_os_scheme \<Rightarrow> gostr \<Rightarrow> gostr \<Rightarrow> connectionTarget" where
  "inferred_target os name commandLine =
     (if commandLine = [] then no_target
      else case os_decompose os commandLine of
        None \<Rightarrow> no_target
      | Some args \<Rightarrow>
          if length args > 1 then
            let target = parseClientTarget (os_url_parse os) name (tl args) in
            if target_session target \<noteq> [] then resolvePuttySession (os_registry os) target
            else target
          else no_target)"

definition clientFromProcess :: "('a) client_os_scheme \<Rightarrow> u32 \<Rightarrow> handle list \<Rightarrow> clientInfo \<times> handle list" where
  "clientFromProcess os pid hs =
     (case ownProcess os pid hs of
        (None, hs) \<Rightarrow> (no_client, hs)
      | (Some process, hs) \<Rightarrow>
          (case os_image_name os process of
             None \<Rightarrow> (no_client, CloseHandle process hs)
           | Some path \<Rightarrow>
               if path = [] then (no_client, CloseHandle process hs)
               else
                 let name = Base (UTF16ToString path);
                     client = no_client\<lparr>client_pid := pid, client_name := name,
                       client_started := processStarted os process\<rparr>;
                     client = (if ToLower name \<in> set recognized_clients
                       then client\<lparr>client_target := inferred_target os name (processCommandLine os process)\<rparr>
                       else client)
                 in (client, CloseHandle process hs)))"

definition clientFromPipe :: "('a) client_os_scheme \<Rightarrow> handle option \<Rightarrow> handle list \<Rightarrow> clientInfo \<times> handle list" where
  "clientFromPipe os fd hs =
     (case fd of
        None \<Rightarrow> (no_client, hs)
      | Some fd \<Rightarrow>
          (case os_pipe_client os fd of
             None \<Rightarrow> (no_client, hs)
           | Some pid \<Rightarrow> clientFromProcess os pid hs))"

text \<open>The thread ID that PuTTY writes into the name of its file mapping.\<close>

definition mapping_thread :: "gostr \<Rightarrow> u32 option" where
  "mapping_thread name =
     (let pre = lit ''PageantRequest'' in
      if \<not> prefix pre name \<or> length name \<noteq> length pre + 8 then None
      else let digits = drop (length pre) name in
        if \<not> list_all (\<lambda>r. r < 128 \<and> is_hex_digit (byte_of r)) (runes_of digits) then None
        else case ParseUint16 digits 32 of
          None \<Rightarrow> None
        | Some tid \<Rightarrow> if tid = 0 then None else Some (u32_of tid))"

definition clientFromMapping :: "('a) client_os_scheme \<Rightarrow> gostr \<Rightarrow> handle list \<Rightarrow> clientInfo \<times> handle list" where
  "clientFromMapping os name hs =
     (case mapping_thread name of
        None \<Rightarrow> (no_client, hs)
      | Some tid \<Rightarrow>
          (case os_open_thread os tid of
             None \<Rightarrow> (no_client, hs)
           | Some thread \<Rightarrow>
               let hs = acquire thread hs; pid = os_thread_pid os thread;
                   (client, hs) = clientFromProcess os pid hs
               in (client\<lparr>client_inferred := True\<rparr>, CloseHandle thread hs)))"

section \<open>What a client record says\<close>

lemma inferred_target_safe: "safe_target (inferred_target os name commandLine)"
  by (auto simp: inferred_target_def Let_def parseClientTarget_safe resolvePuttySession_safe
      split: option.split)

text \<open>The details of a process are reported only when it runs as the same user.\<close>

definition honest_client :: "('a) client_os_scheme \<Rightarrow> clientInfo \<Rightarrow> bool" where
  "honest_client os c \<longleftrightarrow>
     safe_target (client_target c)
     \<and> (c\<lparr>client_inferred := False\<rparr> = no_client
        \<or> (\<exists>process path. client_pid c \<noteq> 0 \<and> os_open_process os (client_pid c) = Some process
             \<and> same_user os process \<and> os_image_name os process = Some path
             \<and> client_name c = Base (UTF16ToString path)
             \<and> client_started c = processStarted os process
             \<and> (ToLower (client_name c) \<notin> set recognized_clients \<longrightarrow> client_target c = no_target)))"

lemma no_client_target [simp]: "client_target no_client = no_target"
  by (simp add: no_client_def)

lemma honest_no_client [simp]: "honest_client os no_client"
  by (simp add: honest_client_def) (simp add: no_client_def)

lemma clientFromProcess_spec:
  "snd (clientFromProcess os pid hs) = hs" (is ?handles)
  "honest_client os (fst (clientFromProcess os pid hs))" (is ?honest)
  "client_inferred (fst (clientFromProcess os pid hs)) = False" (is ?direct)
proof -
  show ?handles ?honest ?direct
    by (cases os pid hs rule: ownProcess_cases;
        auto simp: clientFromProcess_def Let_def honest_client_def inferred_target_safe no_client_def
          split: option.split)+
qed

lemma clientFromPipe_spec:
  "snd (clientFromPipe os fd hs) = hs"
  "honest_client os (fst (clientFromPipe os fd hs))"
  "client_inferred (fst (clientFromPipe os fd hs)) = False"
  by (simp_all add: clientFromPipe_def clientFromProcess_spec no_client_def honest_no_client [unfolded no_client_def]
      split: option.split)

lemma honest_inferred: "honest_client os c \<Longrightarrow> honest_client os (c\<lparr>client_inferred := True\<rparr>)"
  by (simp add: honest_client_def)

lemma clientFromMapping_spec:
  "snd (clientFromMapping os name hs) = hs"
  "honest_client os (fst (clientFromMapping os name hs))"
  using clientFromProcess_spec [of os]
  by (auto simp: clientFromMapping_def Let_def split_def honest_inferred no_client_def
      honest_no_client [unfolded no_client_def] split: option.split)

text \<open>A client known only by its mapping's name is always marked as inferred.\<close>

lemma clientFromMapping_inferred:
  assumes "client_name (fst (clientFromMapping os name hs)) \<noteq> []"
  shows "client_inferred (fst (clientFromMapping os name hs))"
proof (cases "mapping_thread name")
  case None
  with assms show ?thesis by (simp add: clientFromMapping_def no_client_def)
next
  case (Some tid)
  with assms show ?thesis
    by (auto simp: clientFromMapping_def no_client_def Let_def split_def split: option.splits)
qed

end
