(* ===== verification/SigningNotice.thy ===== *)
theory SigningNotice
  imports ClientIdentity Keys
begin

text \<open>
  The notice shown after a signing request (\<^verbatim>\<open>pageant/client_windows.go\<close>):
  \<open>notifySigning\<close> decides which destination may be named and \<open>signingNotice\<close> words it.
\<close>

section \<open>The words\<close>

definition nl :: gostr where
  "nl = [10]"

definition notice_app :: "clientInfo \<Rightarrow> gostr" where
  "notice_app client =
     (if client_name client = [] then lit ''Application unavailable''
      else client_name client @ lit '' (PID '' @ Itoa (unat (client_pid client)) @ lit '')''
        @ (if client_inferred client then lit '' [inferred from mapping]'' else []))"

definition notice_host :: "connectionTarget \<Rightarrow> gostr" where
  "notice_host target =
     (if target_port target \<noteq> 0 \<and> target_port target \<noteq> 22
      then JoinHostPort (target_host target) (Itoa (unat (target_port target)))
      else if colon_byte \<in> set (target_host target) then [91] @ target_host target @ [93]
      else target_host target)"

definition notice_where :: "SignRequest \<Rightarrow> connectionTarget \<Rightarrow> gostr" where
  "notice_where sign target =
     (if target_host target \<noteq> [] then
        (if target_user target \<noteq> [] then target_user target @ [64] else [])
        @ notice_host target
        @ (if target_source target \<noteq> [] then lit '' ['' @ target_source target @ lit '']'' else [])
      else if sign_username sign \<noteq> [] then sign_username sign @ lit ''@unknown host''
      else lit ''Target unavailable'')"

definition signingNotice ::
  "SignRequest \<Rightarrow> byte list \<Rightarrow> clientInfo \<Rightarrow> connectionTarget \<Rightarrow> gostr \<times> gostr" where
  "signingNotice sign response client target =
     ((if ValidateResponse response = None \<and> response ! 4 = 14 then lit ''SSH key used''
       else lit ''SSH key request failed''),
      notice_app client @ nl @ notice_where sign target @ nl @ sign_fingerprint sign)"

section \<open>The destination\<close>

text \<open>
  The endpoint of the process's only connection, when the process is still the one that
  connected: same user, same start time.
\<close>

definition connection_of_process ::
  "('a) client_os_scheme \<Rightarrow> clientInfo \<Rightarrow> handle list \<Rightarrow> connectionTarget option \<times> handle list" where
  "connection_of_process os client hs =
     (case ownProcess os (client_pid client) hs of
        (None, hs) \<Rightarrow> (None, hs)
      | (Some process, hs) \<Rightarrow>
          ((if processStarted os process = client_started client
            then uniqueTCPTarget (os_tcp_table os) (client_pid client) else None),
           CloseHandle process hs))"

definition signing_target ::
  "('a) client_os_scheme \<Rightarrow> SignRequest \<Rightarrow> clientInfo \<Rightarrow> handle list \<Rightarrow> connectionTarget \<times> handle list" where
  "signing_target os sign client hs =
     (if sign_username sign = [] then (no_target, hs)
      else
        let target = client_target client\<lparr>target_user := sign_username sign\<rparr> in
        if target_host target = [] \<and> client_pid client \<noteq> 0 \<and> client_started client \<noteq> 0 then
          (case connection_of_process os client hs of
             (None, hs) \<Rightarrow> (target, hs)
           | (Some inferred, hs) \<Rightarrow>
               (target\<lparr>target_host := target_host inferred, target_port := target_port inferred,
                  target_source := target_source inferred\<rparr>, hs))
        else (target, hs))"

definition notifySigning ::
  "('a) client_os_scheme \<Rightarrow> bool \<Rightarrow> byte list \<Rightarrow> byte list \<Rightarrow> clientInfo \<Rightarrow> handle list
   \<Rightarrow> (gostr \<times> gostr) option \<times> handle list" where
  "notifySigning os has_desktop request response client hs =
     (case ParseSignRequest request of
        None \<Rightarrow> (None, hs)
      | Some sign \<Rightarrow>
          if \<not> has_desktop then (None, hs)
          else case signing_target os sign client hs of
            (target, hs) \<Rightarrow> (Some (signingNotice sign response client target), hs))"

section \<open>Properties\<close>

lemma connection_of_process_spec:
  "snd (connection_of_process os client hs) = hs"
  "fst (connection_of_process os client hs) = Some t \<Longrightarrow>
    \<exists>process. os_open_process os (client_pid client) = Some process \<and> same_user os process
      \<and> processStarted os process = client_started client
      \<and> uniqueTCPTarget (os_tcp_table os) (client_pid client) = Some t"
  by (cases os "client_pid client" hs rule: ownProcess_cases;
      auto simp: connection_of_process_def split: if_splits)+

lemma signing_target_handles: "snd (signing_target os sign client hs) = hs"
  using connection_of_process_spec(1) [of os client hs]
  by (auto simp: signing_target_def Let_def split: option.splits prod.splits)

lemma notifySigning_handles: "snd (notifySigning os d request response client hs) = hs"
  using signing_target_handles [of os _ client hs]
  by (auto simp: notifySigning_def split: option.splits prod.splits) (metis snd_conv)

text \<open>What a notice about a signature may name as its destination.\<close>

lemma signing_target_cases:
  obtains (generic) "sign_username sign = []" "fst (signing_target os sign client hs) = no_target"
  | (arguments) "sign_username sign \<noteq> []"
      "fst (signing_target os sign client hs) = client_target client\<lparr>target_user := sign_username sign\<rparr>"
  | (network) process endpoint where "sign_username sign \<noteq> []" "target_host (client_target client) = []"
      "os_open_process os (client_pid client) = Some process" "same_user os process"
      "processStarted os process = client_started client"
      "uniqueTCPTarget (os_tcp_table os) (client_pid client) = Some endpoint"
      "fst (signing_target os sign client hs) = client_target client
        \<lparr>target_user := sign_username sign, target_host := target_host endpoint,
         target_port := target_port endpoint, target_source := target_source endpoint\<rparr>"
proof (cases "sign_username sign = []")
  case True
  then show ?thesis using generic by (simp add: signing_target_def)
next
  case named: False
  let ?look = "target_host (client_target client) = [] \<and> client_pid client \<noteq> 0 \<and> client_started client \<noteq> 0"
  show ?thesis
  proof (cases "?look \<and> fst (connection_of_process os client hs) \<noteq> None")
    case True
    then obtain t where t: "fst (connection_of_process os client hs) = Some t" by auto
    with True named have "fst (signing_target os sign client hs) = client_target client
        \<lparr>target_user := sign_username sign, target_host := target_host t,
         target_port := target_port t, target_source := target_source t\<rparr>"
      by (auto simp: signing_target_def Let_def split: prod.splits option.splits)
    with connection_of_process_spec(2) [OF t] True named show ?thesis using network by blast
  next
    case False
    with named have "fst (signing_target os sign client hs) = client_target client\<lparr>target_user := sign_username sign\<rparr>"
      by (auto simp: signing_target_def Let_def split: prod.splits option.splits)
    with named show ?thesis by (rule arguments)
  qed
qed

lemma signingNotice_title:
  "fst (signingNotice sign response client target) = lit ''SSH key used''
   \<longleftrightarrow> ValidateResponse response = None \<and> response ! 4 = 14"
  by (simp add: signingNotice_def lit_def)

text \<open>A notice is raised exactly for a well-formed signing request.\<close>

lemma notifySigning_iff:
  "fst (notifySigning os d request response client hs) \<noteq> None \<longleftrightarrow> d \<and> ParseSignRequest request \<noteq> None"
  by (auto simp: notifySigning_def split: option.split prod.split)

text \<open>A request without an authentication payload never names a destination.\<close>

lemma generic_notice:
  assumes "ParseSignRequest request = Some sign" "sign_username sign = []"
  shows "fst (notifySigning os True request response client hs) =
    Some (fst (signingNotice sign response client no_target),
          notice_app client @ nl @ lit ''Target unavailable'' @ nl @ sign_fingerprint sign)"
  using assms
  by (simp add: notifySigning_def signing_target_def signingNotice_def notice_where_def no_target_def)

end
