(* ===== verification/HostSafety.thy ===== *)
theory HostSafety
  imports SigningNotice
begin

text \<open>
  The hosts a notice may show. What \<open>net.IP.String\<close> prints \<open>net.ParseIP\<close> accepts, so a host
  taken from the network passes the same check (\<open>safeHost\<close>) as one taken from a command line.
\<close>

section \<open>Digits\<close>

definition hex_char :: "nat \<Rightarrow> byte" where
  "hex_char n = byte_of (if n < 10 then 48 + n else 87 + n)"

lemma hex_char_digit: "n < 16 \<Longrightarrow> is_hex_digit (hex_char n)"
  by (simp add: hex_char_def is_hex_digit_def is_digit_def unat_byte_of)

lemma hex_string_step:
  "hex_string n = (if n < 16 then [hex_char n] else hex_string (n div 16) @ [hex_char (n mod 16)])"
  by (subst hex_string.simps) (simp add: hex_char_def)

lemma hex_string_digits: "list_all is_hex_digit (hex_string n) \<and> hex_string n \<noteq> []"
proof (induction n rule: less_induct)
  case (less n)
  show ?case
  proof (cases "n < 16")
    case False
    then have "n div 16 < n" by simp
    from less.IH [OF this] False show ?thesis
      by (subst (1 2) hex_string_step) (simp add: hex_char_digit)
  qed (subst (1 2) hex_string_step, simp add: hex_char_digit)
qed

lemma length_hex_string: "n < 16 ^ Suc k \<Longrightarrow> length (hex_string n) \<le> Suc k"
proof (induction k arbitrary: n)
  case 0
  then show ?case by (subst hex_string_step) simp
next
  case (Suc k)
  show ?case
  proof (cases "n < 16")
    case False
    have "n div 16 < 16 ^ Suc k" using Suc.prems by (simp add: less_mult_imp_div_less mult.commute)
    with Suc.IH False show ?thesis by (subst hex_string_step) simp
  qed (subst hex_string_step, simp)
qed

lemma hex_group: "g < 65536 \<Longrightarrow> 1 \<le> length (hex_string g) \<and> length (hex_string g) \<le> 4"
  using length_hex_string [of g 3] hex_string_digits [of g] by (simp add: Suc_le_eq)

lemma length_Itoa: "n < 10 ^ Suc k \<Longrightarrow> length (Itoa n) \<le> Suc k"
proof (induction k arbitrary: n)
  case 0
  then show ?case by (subst Itoa.simps) simp
next
  case (Suc k)
  show ?case
  proof (cases "n < 10")
    case False
    have "n div 10 < 10 ^ Suc k" using Suc.prems by (simp add: less_mult_imp_div_less mult.commute)
    with Suc.IH False show ?thesis by (subst Itoa.simps) simp
  qed (subst Itoa.simps, simp)
qed

lemma digit_bytes:
  "is_hex_digit b \<Longrightarrow> b \<noteq> dot_byte \<and> b \<noteq> colon_byte \<and> b \<noteq> percent_byte"
  by (auto simp: is_hex_digit_def is_digit_def)

section \<open>IPv6 addresses\<close>

lemma hex_string_split:
  assumes "rest = [] \<or> \<not> is_hex_digit (hd rest)"
  shows "length (takeWhile is_hex_digit (hex_string g @ rest)) = length (hex_string g)"
proof -
  have "takeWhile is_hex_digit rest = []" using assms by (cases rest) auto
  then show ?thesis
    using hex_string_digits [of g] by (subst takeWhile_append2) (simp_all add: list_all_iff)
qed

text \<open>One group: at the end, before a colon, and before a double colon.\<close>

lemma v6_group:
  assumes "i < 16" "g < 65536"
  shows "v6_loop i ell (hex_string g) = v6_finish (i + 2) ell []"
    and "s \<noteq> [] \<Longrightarrow> hd s \<noteq> colon_byte \<Longrightarrow> v6_loop i ell (hex_string g @ colon_byte # s) = v6_loop (i + 2) ell s"
    and "v6_loop i False (hex_string g @ [colon_byte, colon_byte] @ s) =
      (if s = [] then v6_finish (i + 2) True [] else v6_loop (i + 2) True s)"
proof -
  have not_hex: "\<not> is_hex_digit colon_byte" by (simp add: is_hex_digit_def is_digit_def)
  note len = hex_group [OF assms(2)]
  show "v6_loop i ell (hex_string g) = v6_finish (i + 2) ell []"
    using assms(1) len hex_string_split [of "[]" g] by (subst v6_loop.simps) (auto simp: Let_def)
  show "v6_loop i ell (hex_string g @ colon_byte # s) = v6_loop (i + 2) ell s"
    if "s \<noteq> []" "hd s \<noteq> colon_byte"
    using that assms(1) len hex_string_split [of "colon_byte # s" g] not_hex
    by (subst v6_loop.simps) (auto simp: Let_def)
  show "v6_loop i False (hex_string g @ [colon_byte, colon_byte] @ s) =
      (if s = [] then v6_finish (i + 2) True [] else v6_loop (i + 2) True s)"
    using assms(1) len hex_string_split [of "colon_byte # colon_byte # s" g] not_hex
    by (subst v6_loop.simps) (auto simp: Let_def)
qed

lemma join_groups_Cons: "gs \<noteq> [] \<Longrightarrow> join_groups (g # gs) = hex_string g @ colon_byte # join_groups gs"
  by (cases gs) simp_all

lemma join_groups_hd:
  assumes "gs \<noteq> []"
  shows "join_groups gs @ s \<noteq> []" "hd (join_groups gs @ s) \<noteq> colon_byte"
proof -
  obtain g gs' where gs: "gs = g # gs'" using assms by (cases gs) auto
  obtain b bs where h: "hex_string g = b # bs" "is_hex_digit b"
    using hex_string_digits [of g] by (cases "hex_string g") auto
  have "\<exists>t. join_groups gs = b # t" using h(1) by (cases gs') (simp_all add: gs)
  then show "join_groups gs @ s \<noteq> []" "hd (join_groups gs @ s) \<noteq> colon_byte"
    using digit_bytes [OF h(2)] by auto
qed

lemma v6_groups:
  assumes "gs \<noteq> []" "i + 2 * length gs \<le> 16" "\<forall>g \<in> set gs. g < 65536"
  shows "v6_loop i ell (join_groups gs) = v6_finish (i + 2 * length gs) ell []"
  using assms
proof (induction gs arbitrary: i)
  case (Cons g gs)
  show ?case
  proof (cases "gs = []")
    case True
    with Cons.prems show ?thesis using v6_group(1) [of i g ell] by simp
  next
    case False
    note j = join_groups_hd [OF False, of "[]"]
    have "v6_loop i ell (join_groups (g # gs)) = v6_loop (i + 2) ell (join_groups gs)"
      using v6_group(2) [of i g "join_groups gs" ell] Cons.prems j False by (simp add: join_groups_Cons)
    also have "\<dots> = v6_finish (i + 2 + 2 * length gs) ell []"
      using Cons.IH [of "i + 2"] Cons.prems False by simp
    finally show ?thesis by simp
  qed
qed simp

lemma v6_ellipsis:
  assumes "gs \<noteq> []" "i + 2 * length gs \<le> 14" "\<forall>g \<in> set gs. g < 65536"
  shows "v6_loop i False (join_groups gs @ [colon_byte, colon_byte] @ s) =
    (if s = [] then v6_finish (i + 2 * length gs) True [] else v6_loop (i + 2 * length gs) True s)"
  using assms
proof (induction gs arbitrary: i)
  case (Cons g gs)
  show ?case
  proof (cases "gs = []")
    case True
    with Cons.prems show ?thesis using v6_group(3) [of i g s] by simp
  next
    case False
    let ?s = "join_groups gs @ [colon_byte, colon_byte] @ s"
    note j = join_groups_hd [OF False, of "[colon_byte, colon_byte] @ s"]
    have "v6_loop i False (join_groups (g # gs) @ [colon_byte, colon_byte] @ s) = v6_loop (i + 2) False ?s"
      using v6_group(2) [of i g ?s False] Cons.prems j False by (simp add: join_groups_Cons)
    with Cons.IH [of "i + 2"] Cons.prems False show ?thesis by (simp add: algebra_simps)
  qed
qed simp

text \<open>The compressed form of eight groups.\<close>

definition print_groups :: "nat list \<Rightarrow> gostr" where
  "print_groups gs =
     (case longest_zero_run gs of
        None \<Rightarrow> join_groups gs
      | Some (i, n) \<Rightarrow> join_groups (take i gs) @ [colon_byte, colon_byte] @ join_groups (drop (i + n) gs))"

lemma longest_zero_run_bound:
  assumes "longest_zero_run gs = Some (i, n)"
  shows "2 \<le> n \<and> i + n \<le> length gs"
proof -
  let ?ok = "\<lambda>best. case best of None \<Rightarrow> True | Some (i, n) \<Rightarrow> 2 \<le> n \<and> i + n \<le> length gs"
  let ?f = "\<lambda>best i. let n = zero_run_at gs i in case best of
          None \<Rightarrow> if n \<ge> 2 then Some (i, n) else None
        | Some (_, m) \<Rightarrow> if n \<ge> 2 \<and> n > m then Some (i, n) else best"
  have run: "i + zero_run_at gs i \<le> length gs" if "i < length gs" for i
    using that length_takeWhile_le [of "\<lambda>g. g = 0" "drop i gs"] by (simp add: zero_run_at_def)
  have "?ok (foldl ?f best xs)" if "?ok best" "\<forall>i \<in> set xs. i < length gs" for best xs
    using that
  proof (induction xs arbitrary: best)
    case (Cons x xs)
    have "?ok (?f best x)"
      using Cons.prems run [of x] by (auto simp: Let_def split: option.split)
    with Cons.IH [of "?f best x"] Cons.prems(2) show ?case by simp
  qed simp
  from this [of None "[0..<length gs]"] assms show ?thesis
    by (simp add: longest_zero_run_def)
qed

lemma join_groups_Nil_iff: "join_groups gs = [] \<longleftrightarrow> gs = []"
  using join_groups_hd(1) [of gs "[]"] by auto

lemma parse_ipv6_print:
  assumes "length gs = 8" "\<forall>g \<in> set gs. g < 65536"
  shows "parse_ipv6 (print_groups gs)"
proof -
  have start: "\<not> prefix [colon_byte, colon_byte] (join_groups hs @ s)" if "hs \<noteq> []" for hs s
    using join_groups_hd [OF that, of s] by (cases "join_groups hs @ s") auto
  show ?thesis
  proof (cases "longest_zero_run gs")
    case None
    have "gs \<noteq> []" using assms(1) by auto
    then have "v6_loop 0 False (join_groups gs) = v6_finish 16 False []"
      using v6_groups [of gs 0 False] assms by simp
    with None start [of gs "[]"] \<open>gs \<noteq> []\<close> show ?thesis
      by (simp add: print_groups_def parse_ipv6_def v6_finish_def)
  next
    case (Some p)
    then obtain i n where p: "longest_zero_run gs = Some (i, n)" by (cases p) auto
    note b = longest_zero_run_bound [OF p]
    let ?gs = "drop (i + n) gs"
    have small: "\<forall>g \<in> set ?gs. g < 65536" "\<forall>g \<in> set (take i gs). g < 65536"
      using assms(2) by (auto dest: in_set_dropD in_set_takeD)
    have tail: "?gs = [] \<or> v6_loop (2 * i) True (join_groups ?gs)"
    proof (cases "?gs = []")
      case False
      have "2 * i + 2 * length ?gs < 16" using b assms(1) by simp linarith
      then show ?thesis
        using v6_groups [OF False _ small(1), of "2 * i" True] by (simp only: v6_finish_def) simp
    qed simp
    show ?thesis
    proof (cases "i = 0")
      case True
      with tail show ?thesis
        by (auto simp: print_groups_def p parse_ipv6_def Let_def)
    next
      case False
      then have "take i gs \<noteq> []" using assms(1) by auto
      with v6_ellipsis [of "take i gs" 0 "join_groups ?gs"] tail b assms(1) small(2) start
      show ?thesis
        by (auto simp: print_groups_def p parse_ipv6_def join_groups_Nil_iff v6_finish_def)
    qed
  qed
qed

text \<open>The characters and the length of a printed address.\<close>

lemma join_groups_chars: "\<forall>b \<in> set (join_groups gs). is_hex_digit b \<or> b = colon_byte"
proof (induction gs rule: join_groups.induct)
  case (2 g)
  then show ?case using hex_string_digits [of g] by (simp add: list_all_iff)
next
  case (3 g h gs)
  then show ?case using hex_string_digits [of g] by (auto simp: list_all_iff)
qed simp

lemma length_join_groups: "\<forall>g \<in> set gs. g < 65536 \<Longrightarrow> length (join_groups gs) \<le> 5 * length gs"
proof (induction gs rule: join_groups.induct)
  case (2 g)
  then show ?case using hex_group [of g] by simp
next
  case (3 g h gs)
  then show ?case using hex_group [of g] by simp
qed simp

lemma print_groups_chars:
  assumes "b \<in> set (print_groups gs)"
  shows "is_hex_digit b \<or> b = colon_byte"
proof -
  from assms have "(\<exists>hs. b \<in> set (join_groups hs)) \<or> b = colon_byte"
    by (auto simp: print_groups_def split: option.splits)
  then show ?thesis using join_groups_chars by blast
qed

lemma print_groups_colon:
  assumes "length gs = 8"
  shows "colon_byte \<in> set (print_groups gs)"
proof -
  obtain g h gs' where "gs = g # h # gs'" using assms by (cases gs; cases "tl gs") auto
  then show ?thesis by (auto simp: print_groups_def split: option.split)
qed

lemma length_print_groups:
  assumes "length gs = 8" "\<forall>g \<in> set gs. g < 65536"
  shows "length (print_groups gs) \<le> 82"
proof -
  have "length (join_groups hs) \<le> 40" if "set hs \<subseteq> set gs" "length hs \<le> 8" for hs
    using length_join_groups [of hs] that assms(2) by force
  then have "length (join_groups gs) \<le> 40" "length (join_groups (take i gs)) \<le> 40"
    "length (join_groups (drop i gs)) \<le> 40" for i
    using assms(1) set_take_subset [of i gs] set_drop_subset [of i gs] by auto
  then show ?thesis
    using add_mono [OF \<open>\<And>i. length (join_groups (take i gs)) \<le> 40\<close> \<open>\<And>i. length (join_groups (drop i gs)) \<le> 40\<close>]
    by (auto simp: print_groups_def split: option.split)
qed

lemma ParseIP_print:
  assumes "length gs = 8" "\<forall>g \<in> set gs. g < 65536"
  shows "ParseIP (print_groups gs)"
proof -
  let ?P = "\<lambda>b. b = dot_byte \<or> b = colon_byte \<or> b = percent_byte"
  have first: "find ?P s = Some colon_byte"
    if "\<forall>b \<in> set s. is_hex_digit b \<or> b = colon_byte" "colon_byte \<in> set s" for s
    using that by (induction s) (auto dest: digit_bytes)
  have chars: "\<forall>b \<in> set (print_groups gs). is_hex_digit b \<or> b = colon_byte"
    using print_groups_chars by blast
  then have "percent_byte \<notin> set (print_groups gs)"
    using digit_bytes by fastforce
  then show ?thesis
    using first [OF chars print_groups_colon [OF assms(1)]] parse_ipv6_print [OF assms]
    by (simp add: ParseIP_def)
qed

lemma groups_of_ok: "length bs = 2 * n \<Longrightarrow> length (groups_of bs) = n \<and> (\<forall>g \<in> set (groups_of bs). g < 65536)"
proof (induction bs arbitrary: n rule: groups_of.induct)
  case (1 a b bs)
  then obtain m where m: "n = Suc m" by (cases n) auto
  have "unat a * 256 + unat b < 65536"
    using unat_byte_less [of a] unat_byte_less [of b] by linarith
  with 1 m show ?case by simp
qed auto

section \<open>Safe hosts\<close>

definition address_byte :: "byte \<Rightarrow> bool" where
  "address_byte b \<longleftrightarrow> is_hex_digit b \<or> b = dot_byte \<or> b = colon_byte \<or> b = percent_byte"

lemma address_byte_safe:
  assumes "address_byte b"
  shows "unat b < 128" "\<not> unsafe_rune (unat b)" "b \<notin> {47, 92, 64, 34, 39, 45}"
proof -
  from assms consider "48 \<le> unat b \<and> unat b \<le> 57" | "65 \<le> unat b \<and> unat b \<le> 70" | "97 \<le> unat b \<and> unat b \<le> 102"
    | "b = dot_byte" | "b = colon_byte" | "b = percent_byte"
    by (auto simp: address_byte_def is_hex_digit_def is_digit_def)
  then have r: "unat b < 128 \<and> \<not> unsafe_rune (unat b) \<and> unat b \<notin> {47, 92, 64, 34, 39, 45}"
    by cases (auto simp: unsafe_rune_def is_space_def is_control_def is_cf_def cf_ranges_def in_ranges_def)
  then show "unat b < 128" "\<not> unsafe_rune (unat b)" by auto
  from r show "b \<notin> {47, 92, 64, 34, 39, 45}" by auto
qed

lemma runes_of_address: "list_all address_byte s \<Longrightarrow> runes_of s = map unat s"
  by (induction s) (simp_all add: address_byte_safe(1))

lemma safe_address:
  assumes "list_all address_byte h" "length h \<le> 253"
    and "colon_byte \<in> set h \<Longrightarrow> ParseIP (before_first percent_byte h)"
  shows "safe_host h"
proof -
  have "safe_field h"
    using assms(1,2) by (auto simp: safe_field_def runes_of_address list_all_iff address_byte_safe(2))
  moreover have "set h \<inter> {47, 92, 64, 34, 39} = {}" "\<not> prefix (lit ''-'') h"
    using assms(1) address_byte_safe(3) by (fastforce simp: list_all_iff, cases h) (auto simp: lit_def dest: address_byte_safe(3))
  ultimately show ?thesis using assms(3) by (simp add: safe_host_def)
qed

lemma Itoa_address: "list_all address_byte (Itoa n)"
  using Itoa_digits [of n] by (auto simp: list_all_iff address_byte_def is_hex_digit_def)

lemma Itoa_no_colon: "colon_byte \<notin> set (Itoa n)"
  using Itoa_digits [of n] digits_no_colon by blast

lemma ipv4_string_address:
  "list_all address_byte (ipv4_string bs) \<and> colon_byte \<notin> set (ipv4_string bs) \<and> length (ipv4_string bs) \<le> 15"
proof (cases "\<exists>a b c d. bs = [a, b, c, d]")
  case True
  then obtain a b c d where bs: "bs = [a, b, c, d]" by blast
  have len: "length (Itoa (unat x)) \<le> 3" for x :: byte
    using length_Itoa [of "unat x" 2] unat_byte_less [of x] by simp
  show ?thesis
    using len [of a] len [of b] len [of c] len [of d]
    by (simp add: bs ipv4_string_def Itoa_address Itoa_no_colon address_byte_def)
next
  case False
  then have "ipv4_string bs = []" by (auto simp: ipv4_string_def split: list.split)
  then show ?thesis by simp
qed

lemma safe_ipv4_string: "safe_host (ipv4_string bs)"
  using ipv4_string_address [of bs] by (intro safe_address) auto

lemma ipv6_string_cases:
  assumes "length bs = 16"
  obtains (mapped) "ipv6_string bs = ipv4_string (drop 12 bs)"
  | (groups) gs where "length gs = 8" "\<forall>g \<in> set gs. g < 65536" "ipv6_string bs = print_groups gs"
  using groups_of_ok [of bs 8] assms
  by (cases "take 12 bs = replicate 10 0 @ [255, 255]") (auto simp: ipv6_string_def print_groups_def Let_def)

text \<open>An address of sixteen bytes, with the zone its scope gives it.\<close>

definition zone_of :: "u32 \<Rightarrow> gostr" where
  "zone_of scope = (if scope \<noteq> 0 then percent_byte # Itoa (unat scope) else [])"

lemma zone_address:
  "list_all address_byte (zone_of scope) \<and> length (zone_of scope) \<le> 11 \<and> colon_byte \<notin> set (zone_of scope)"
proof -
  have "unat scope < 10 ^ Suc 9" by (rule order_less_le_trans [OF unsigned_less]) simp
  from length_Itoa [OF this] have "length (Itoa (unat scope)) \<le> 10" by simp
  then show ?thesis by (simp add: zone_of_def Itoa_address Itoa_no_colon address_byte_def)
qed

lemma before_first_zone: "percent_byte \<notin> set s \<Longrightarrow> before_first percent_byte (s @ zone_of scope) = s"
  by (induction s) (auto simp: before_first_def zone_of_def)

lemma safe_ipv6_zone:
  assumes "length bs = 16"
  shows "safe_host (ipv6_string bs @ zone_of scope)"
  using assms
proof (cases rule: ipv6_string_cases)
  case mapped
  show ?thesis
    using ipv4_string_address [of "drop 12 bs"] zone_address [of scope]
    unfolding mapped by (intro safe_address) auto
next
  case (groups gs)
  have chars: "list_all address_byte (print_groups gs)"
    using print_groups_chars by (fastforce simp: list_all_iff address_byte_def)
  have "percent_byte \<notin> set (print_groups gs)"
    using print_groups_chars digit_bytes by fastforce
  then show ?thesis
    using chars zone_address [of scope] length_print_groups [OF groups(1,2)] ParseIP_print [OF groups(1,2)]
    unfolding groups(3) by (intro safe_address) (auto simp: before_first_zone)
qed

section \<open>Endpoints read from the network\<close>

lemma length_slice: "hi \<le> length bs \<Longrightarrow> lo \<le> hi \<Longrightarrow> length (slice lo hi bs) = hi - lo"
  by (simp add: slice_def)

lemma row_target_safe:
  assumes "family = AF_INET \<or> length row \<ge> 40"
  shows "safe_host (target_host (row_target family row))"
proof (cases "family = AF_INET")
  case False
  with assms have "length (slice 24 40 row) = 16" by (simp add: length_slice)
  from safe_ipv6_zone [OF this] False show ?thesis by (simp add: row_target_def zone_of_def Let_def)
qed (simp add: row_target_def safe_ipv4_string)

lemma table_rows_safe:
  assumes "t \<in> set (table_rows family (rs, so, po) pid buffer i n)"
    and "family = AF_INET \<or> rs \<ge> 40" "4 + (i + n) * rs \<le> length buffer"
  shows "safe_host (target_host t)"
  using assms
proof (induction n arbitrary: i)
  case (Suc n)
  let ?row = "slice (4 + i * rs) (4 + (i + 1) * rs) buffer"
  have "4 + (i + 1) * rs \<le> length buffer" using Suc.prems(3) by (simp add: algebra_simps)
  then have "length ?row = rs" by (simp add: length_slice)
  then have "safe_host (target_host (row_target family ?row))"
    using Suc.prems(2) by (intro row_target_safe) auto
  then show ?case
    using Suc.prems Suc.IH [of "i + 1"] by (auto simp: Let_def split: if_splits)
qed simp

lemma parseTCPTable_safe:
  assumes "parseTCPTable buffer pid family = Some ts" "t \<in> set ts"
  shows "safe_host (target_host t)"
proof -
  obtain rs so po where lay: "table_layout family = Some (rs, so, po)"
    using assms(1) by (auto simp: parseTCPTable_def split: option.splits)
  then have "ts = table_rows family (rs, so, po) pid buffer 0 (unat (le32 buffer))"
    using assms(1) by (auto simp: parseTCPTable_def Let_def split: if_splits)
  moreover have "family = AF_INET \<or> rs \<ge> 40" using lay by (auto simp: table_layout_def split: if_splits)
  ultimately show ?thesis
    using table_rows_safe [of t family rs so po pid buffer 0] parseTCPTable_fits [OF assms(1) lay] assms(2) by simp
qed

lemma table_attempts_safe:
  "table_attempts call pid family k len n = Some ts \<Longrightarrow> t \<in> set ts \<Longrightarrow> safe_host (target_host t)"
  by (induction call pid family k len n rule: table_attempts.induct)
    (auto dest: parseTCPTable_safe split: prod.splits if_splits)

lemma uniqueTCPTarget_safe:
  assumes "uniqueTCPTarget os pid = Some t"
  shows "safe_host (target_host t)"
proof -
  obtain family ts where "processTCPTargets os pid family = Some ts" "t \<in> set ts"
    using assms unfolding uniqueTCPTarget_iff by (metis Un_iff insertI1 set_append)
  then show ?thesis
    by (auto simp: processTCPTargets_def dest: table_attempts_safe split: prod.splits if_splits)
qed

section \<open>The destination of a notice\<close>

lemma signing_target_safe:
  assumes "safe_host (target_host (client_target client))"
  shows "safe_host (target_host (fst (signing_target os sign client hs)))"
  using signing_target_cases [of sign os client hs]
  by cases (use assms in \<open>simp_all add: no_target_def uniqueTCPTarget_safe\<close>)

end
