(* ===== verification/PropsClient.thy ===== *)
theory PropsClient
  imports HostSafety
begin

text \<open>
  The properties of \<^verbatim>\<open>pageant/client_windows.go\<close>: inferred destinations, network endpoints,
  client identity and the signing notice.
\<close>

section \<open>Examples used by the witnesses\<close>

text \<open>
  A machine with one process, number 7, of the current user: PuTTY with no readable command
  line and one established connection, to 10.0.0.1 port 22.
\<close>

definition example_row :: tcp_row where
  "example_row = \<lparr>row_state = 5, row_local = [127, 0, 0, 1, 4, 0, 0, 0], row_raddr = [10, 0, 0, 1],
     row_scope = 0, row_rport = 22, row_port_pad = [0, 0], row_pid = 7\<rparr>"

definition example_tcp :: "u32 \<Rightarrow> tcp_call" where
  "example_tcp family attempt len =
     (if attempt = 0 then (122, 28, [])
      else (0, 28, if family = 2 then put_table 2 [example_row] else put_table 23 []))"

definition example_os :: client_os where
  "example_os = \<lparr>os_process_user = Some (Some [1, 5]), os_current_process = 99,
     os_security_info = (\<lambda>_. None), os_sid_valid = (\<lambda>_. True), os_sid_copy = Some,
     os_open_thread = (\<lambda>_. Some 3), os_thread_pid = (\<lambda>_. 7),
     os_open_process = (\<lambda>pid. if pid = 7 then Some 1 else None), os_open_token = (\<lambda>_. Some 2),
     os_token_user = (\<lambda>_. Some [1, 5]), os_image_name = (\<lambda>_. Some [112, 46, 101]),
     os_process_times = (\<lambda>_. Some (0, 1)), os_has_ntquery = False, os_required = (\<lambda>_. 0),
     os_query_command = (\<lambda>_ _. (1, [], 0)), os_decompose = (\<lambda>_. None),
     os_pipe_client = (\<lambda>_. Some 7), os_url_parse = (\<lambda>_. None), os_registry = None,
     os_tcp_table = example_tcp\<rparr>"

definition example_target :: connectionTarget where
  "example_target = \<lparr>target_user = [], target_host = ipv4_string [10, 0, 0, 1], target_port = 22,
     target_source = lit ''inferred network endpoint'', target_session = []\<rparr>"

definition example_client :: clientInfo where
  "example_client = no_client\<lparr>client_pid := 7, client_name := lit ''p.e'', client_started := 1\<rparr>"

definition example_sign :: SignRequest where
  "example_sign = \<lparr>sign_key_type = lit ''ssh-ed25519'', sign_fingerprint = lit ''SHA256:x'', sign_username = lit ''git''\<rparr>"

lemma example_row_ok: "row_ok 2 example_row"
  by (simp add: row_ok_def example_row_def)

lemma example_target_of_row: "target_of_row 2 example_row = example_target"
  by (simp add: target_of_row_def example_row_def example_target_def)

lemma example_processTCPTargets:
  "processTCPTargets example_tcp 7 2 = Some [example_target]" "processTCPTargets example_tcp 7 23 = Some []"
proof -
  have len: "length (put_table 2 [example_row]) = 28"
    by (simp add: put_table_def put_row_def example_row_def)
  have "parseTCPTable (put_table 2 [example_row] @ []) 7 2 = Some [example_target]"
    using parseTCPTable_put [of 2 "[example_row]" "[]" 7]
    by (simp add: example_row_ok example_target_of_row) (simp add: example_row_def)
  moreover have "filled 28 (put_table 2 [example_row]) = put_table 2 [example_row] @ []"
    using len by (simp add: filled_def)
  ultimately show "processTCPTargets example_tcp 7 2 = Some [example_target]"
    by (simp add: processTCPTargets_def example_tcp_def maxTableBytes_def numeral_3_eq_3)
  have "parseTCPTable (put_table 23 [] @ replicate 24 0) 7 23 = Some []"
    using parseTCPTable_put [of 23 "[]" "replicate 24 0" 7] by simp
  moreover have "filled 28 (put_table 23 []) = put_table 23 [] @ replicate 24 0"
    by (simp add: filled_def put_table_def)
  ultimately show "processTCPTargets example_tcp 7 23 = Some []"
    by (simp add: processTCPTargets_def example_tcp_def maxTableBytes_def numeral_3_eq_3)
qed

lemma example_unique: "uniqueTCPTarget example_tcp 7 = Some example_target"
  by (simp add: uniqueTCPTarget_iff example_processTCPTargets)

section \<open>Destinations\<close>

text \<open>
  C14: the destination a notice names is safe to show, whatever a client's command line, a
  URL parser, a saved PuTTY session or the table of connections says: the inferred user and
  the host shown (also the one taken from the network just before the notice) have at most
  253 bytes without space, control or format characters, and the host holds no slash,
  quote or at sign, does not start with a dash, and has a colon only when what precedes its
  zone is an IP address. A host from the network never passes \<open>safeHost\<close>; it is safe because
  of how addresses print.
\<close>

theorem named_destination_is_safe:
  "safe_target (parseClientTarget url_parse app args)
   \<and> safe_target (client_target (fst (clientFromPipe os fd hs)))
   \<and> safe_host (target_host (fst (signing_target os sign (fst (clientFromPipe os fd hs)) hs)))
   \<and> safe_target (client_target (fst (clientFromMapping os name hs)))
   \<and> safe_host (target_host (fst (signing_target os sign (fst (clientFromMapping os name hs)) hs)))"
proof -
  have pipe: "safe_target (client_target (fst (clientFromPipe os fd hs)))"
    using clientFromPipe_spec(2) [of os fd hs] by (simp add: honest_client_def)
  have mapping: "safe_target (client_target (fst (clientFromMapping os name hs)))"
    using clientFromMapping_spec(2) [of os name hs] by (simp add: honest_client_def)
  show ?thesis
    using pipe mapping parseClientTarget_safe [of url_parse app args]
      signing_target_safe [of "fst (clientFromPipe os fd hs)" os sign hs]
      signing_target_safe [of "fst (clientFromMapping os name hs)" os sign hs]
    by (simp add: safe_target_def)
qed

text \<open>
  The value of an option that is not one of the few interpreted ones (a password, a
  key file, a proxy command) never influences the target, not even by looking like an
  option or a destination itself.
\<close>

lemma option_values_are_not_read:
  assumes "prefix (lit ''-'') opt" "opt \<noteq> lit ''--''"
    and "split_attached ssh opt = (opt, [])" "\<not> interpreted_option ssh opt"
    and "flag_in opt (value_flags ssh)" "\<not> repeated_v ssh opt" "\<not> flag_in opt (no_value_flags ssh)"
  shows "scan_args url_parse ssh gui d target (opt # secret # args)
       = scan_args url_parse ssh gui d target (opt # other # args)"
  using scan_ignores_value [OF assms(1-4)] assms(5-7) by simp


section \<open>Network endpoints\<close>

text \<open>
  C29: reading a table as Windows lays it out, followed by any slack, gives exactly the
  remote endpoints of the established connections of the process, in order, each printed
  from its bytes; ports are in network order and a zero port is not an endpoint.
\<close>

theorem parseTCPTable_reads_rows:
  assumes "family = AF_INET \<or> family = AF_INET6" "\<forall>r \<in> set rows. row_ok family r"
    and "length rows < 2 ^ 32"
  shows "parseTCPTable (put_table family rows @ slack) pid family =
    Some (map (target_of_row family)
      (filter (\<lambda>r. row_state r = TCP_ESTABLISHED \<and> row_pid r = pid \<and> row_rport r \<noteq> 0) rows))"
  using parseTCPTable_put [OF assms] .

theorem parseTCPTable_reads_rows_witness:
  "parseTCPTable (put_table AF_INET [example_row] @ [9]) 7 AF_INET = Some [example_target]"
  using parseTCPTable_reads_rows [of AF_INET "[example_row]" "[9]" 7]
  by (simp add: example_row_ok example_target_of_row) (simp add: example_row_def)

text \<open>
  C28: a network endpoint is reported exactly when both address families' tables could be
  read and every established remote endpoint of the process is that one.
\<close>

theorem uniqueTCPTarget_exact:
  "uniqueTCPTarget os pid = Some t \<longleftrightarrow>
   (\<exists>v4 v6. processTCPTargets os pid AF_INET = Some v4 \<and> processTCPTargets os pid AF_INET6 = Some v6
     \<and> set (v4 @ v6) = {t})"
  by (rule uniqueTCPTarget_iff)

section \<open>Who asks\<close>

text \<open>
  C12: the name, start time and target of a process are reported only when the process
  runs as the same user; a target only for a recognised client; a client known by its
  mapping's name alone is marked as inferred; and every handle opened on the way is closed.
\<close>

theorem client_identity:
  "honest_client os (fst (clientFromPipe os fd hs)) \<and> snd (clientFromPipe os fd hs) = hs
   \<and> honest_client os (fst (clientFromMapping os name hs)) \<and> snd (clientFromMapping os name hs) = hs
   \<and> (client_name (fst (clientFromMapping os name hs)) \<noteq> [] \<longrightarrow>
        client_inferred (fst (clientFromMapping os name hs)))"
  using clientFromPipe_spec [of os fd hs] clientFromMapping_spec [of os name hs]
    clientFromMapping_inferred [of os name hs] by blast

theorem client_identity_witness:
  "client_inferred (fst (clientFromMapping example_os (lit ''PageantRequest00000003'') []))"
proof -
  have "mapping_thread (lit ''PageantRequest00000003'') = Some 3"
    by (simp add: mapping_thread_def lit_def Let_def ParseUint16_def is_hex_digit_def is_digit_def
        hex_number_def hex_value_def)
  then have "client_name (fst (clientFromMapping example_os (lit ''PageantRequest00000003'') [])) \<noteq> []"
    by (simp add: clientFromMapping_def clientFromProcess_def ownProcess_def example_os_def
        GetUserSID_def copyValidSID_def UTF16ToString_def encode_wtf8_def encode_rune_def Base_def
        strip_seps_def is_sep_def volumeNameLen_def is_high_def Let_def split_def)
  with client_identity [of example_os None "[]" "lit ''PageantRequest00000003''"] show ?thesis by blast
qed

text \<open>
  The command line is read from inside the buffer Windows filled: the window the
  returned structure designates is accepted only when it lies in the buffer and is a whole
  number of UTF-16 units.
\<close>

lemma command_line_stays_in_buffer:
  assumes "command_window start buffer = Some (off, len)"
  shows "off + len \<le> length buffer \<and> even len \<and> length (slice off (off + len) buffer) = len"
  using command_window_inside [OF assms] .

section \<open>Notices\<close>

text \<open>
  A signature that is no SSH authentication names no destination, whatever is known
  about the client.
\<close>

lemma generic_signature_names_no_host:
  assumes "ParseSignRequest request = Some sign" "sign_username sign = []"
  shows "\<exists>title. fst (notifySigning os True request response client hs) =
    Some (title, notice_app client @ nl @ lit ''Target unavailable'' @ nl @ sign_fingerprint sign)"
  by (rule exI) (rule generic_notice [OF assms])

definition generic_request :: "byte list" where
  "generic_request = frame_of (sign_payload (put_string (lit ''ssh-rsa'') @ [1]) [7] [0, 0, 0, 0])"


text \<open>
  C13: a host that does not come from the client's own arguments is the only established
  endpoint of the very process that connected: opened by its number, running as the same
  user and started at the recorded time.
\<close>

theorem network_host_is_the_clients:
  assumes "target_host (client_target client) = []"
    and "target_host (fst (signing_target os sign client hs)) \<noteq> []"
  shows "\<exists>process t. os_open_process os (client_pid client) = Some process \<and> same_user os process
    \<and> processStarted os process = client_started client
    \<and> uniqueTCPTarget (os_tcp_table os) (client_pid client) = Some t
    \<and> target_host (fst (signing_target os sign client hs)) = target_host t
    \<and> target_port (fst (signing_target os sign client hs)) = target_port t"
  using assms(1)
proof (cases rule: signing_target_cases [of sign os client hs])
  case generic
  with assms(2) show ?thesis by (simp add: no_target_def)
next
  case arguments
  with assms show ?thesis by simp
next
  case (network process t)
  then show ?thesis by (intro exI [of _ process] exI [of _ t]) simp
qed

theorem network_host_is_the_clients_witness:
  "\<exists>process t. os_open_process example_os 7 = Some process \<and> same_user example_os process
    \<and> processStarted example_os process = 1
    \<and> uniqueTCPTarget (os_tcp_table example_os) 7 = Some t
    \<and> target_host (fst (signing_target example_os example_sign example_client [])) = target_host t
    \<and> target_port (fst (signing_target example_os example_sign example_client [])) = target_port t"
proof -
  have client: "client_pid example_client = 7" "client_started example_client = 1"
    "target_host (client_target example_client) = []"
    by (simp_all add: example_client_def no_client_def no_target_def)
  have own: "ownProcess example_os 7 [] = (Some 1, acquire 1 [])"
    by (simp add: ownProcess_def example_os_def GetUserSID_def copyValidSID_def)
  have "processStarted example_os 1 = 1" by (simp add: processStarted_def example_os_def)
  moreover have "os_tcp_table example_os = example_tcp" by (simp add: example_os_def)
  ultimately have "connection_of_process example_os example_client [] = (Some example_target, [])"
    by (simp add: connection_of_process_def client own example_unique)
  then have "target_host (fst (signing_target example_os example_sign example_client [])) = ipv4_string [10, 0, 0, 1]"
    by (simp add: signing_target_def example_sign_def client lit_def example_target_def)
  then have "target_host (fst (signing_target example_os example_sign example_client [])) \<noteq> []"
    by (simp add: ipv4_string_def)
  from network_host_is_the_clients [OF client(3) this] show ?thesis
    unfolding client .
qed

end
