(* ===== verification/Bridge.thy ===== *)
theory Bridge
  imports SigningNotice Session
begin

text \<open>
  The query both transports make (\<^verbatim>\<open>pageant/run_windows.go\<close>): \<open>queryUsing\<close> puts validation
  on both sides of a request handler and reports signatures, \<open>defaultHandlerFunc\<close> is the
  built-in handler. The contract that \<open>handleCopyData\<close> and \<open>pipeListen\<close> rely on is the
  locale \<open>frame_service\<close>.
\<close>

definition agentFailure :: "byte list" where
  "agentFailure = [0, 0, 0, 1, 5]"

lemma agentFailure_generic: "agentFailure = genericFailResponse"
  by (simp add: agentFailure_def genericFailResponse_def SSH_AGENT_FAIL_def)

text \<open>What a query changes: the handler's state, the open handles, the notices raised.\<close>

record 's bridge =
  br_handler :: 's
  br_handles :: "handle list"
  br_notices :: "(gostr \<times> gostr) list"

text \<open>
  A request handler: a reply and an error, as in Go. \<open>'e\<close> is the handler's error type.
\<close>

type_synonym ('s, 'e) request_handler = "byte list \<Rightarrow> 's \<Rightarrow> (byte list \<times> 'e option) \<times> 's"

definition defaultHandlerFunc :: "(gostr \<Rightarrow> io_error + conn) \<Rightarrow> gostr \<Rightarrow> ('s, query_error) request_handler" where
  "defaultHandlerFunc dial pipeName request s = (QueryAgent dial pipeName request, s)"

definition queryUsing ::
  "('a) client_os_scheme \<Rightarrow> bool \<Rightarrow> ('s, 'e) request_handler \<Rightarrow> clientInfo
   \<Rightarrow> byte list \<Rightarrow> 's bridge \<Rightarrow> byte list \<times> 's bridge" where
  "queryUsing os has_desktop handler client request b =
     (if ValidateRequest request \<noteq> None then (agentFailure, b)
      else case handler request (br_handler b) of
        ((result, err), s) \<Rightarrow>
          let result = (if err \<noteq> None \<or> ValidateResponse result \<noteq> None then agentFailure else result);
              b = b\<lparr>br_handler := s\<rparr>
          in if has_desktop then
               (case notifySigning os has_desktop request result client (br_handles b) of
                  (notice, hs) \<Rightarrow>
                    (result, b\<lparr>br_handles := hs,
                       br_notices := br_notices b @ (case notice of None \<Rightarrow> [] | Some n \<Rightarrow> [n])\<rparr>))
             else (result, b))"

section \<open>The contract\<close>

text \<open>
  A frame service answers every byte string with a valid reply frame, answers what is not a
  request frame with the failure frame, without looking further, and keeps the invariant
  of its state (here: the set of open handles).
\<close>

locale frame_service =
  fixes ask :: "byte list \<Rightarrow> 's \<Rightarrow> byte list \<times> 's"
    and held_handles :: "'s \<Rightarrow> handle list"
  assumes ask_valid: "ValidateResponse (fst (ask request s)) = None"
    and ask_invalid: "ValidateRequest request \<noteq> None \<Longrightarrow> ask request s = (agentFailure, s)"
    and ask_handles: "held_handles (snd (ask request s)) = held_handles s"
begin

lemma ask_length: "5 \<le> length (fst (ask request s))" "length (fst (ask request s)) \<le> 262148"
  using ValidateResponse_length [OF ask_valid [of request s]] by simp_all

end

lemma queryUsing_valid: "ValidateResponse (fst (queryUsing os d handler client request b)) = None"
  by (auto simp: queryUsing_def agentFailure_generic Let_def split: prod.split)

lemma queryUsing_handles: "br_handles (snd (queryUsing os d handler client request b)) = br_handles b"
  by (simp add: queryUsing_def Let_def split_def notifySigning_handles)

interpretation query_service: frame_service "queryUsing os d handler client" br_handles
  for os d handler client
  by unfold_locales (simp_all add: queryUsing_valid queryUsing_handles, simp add: queryUsing_def)

section \<open>What the handler sees and what the client gets\<close>

text \<open>
  The reply is the handler's own when it is a valid frame returned without an error, and
  the failure frame otherwise; the handler runs only on valid requests.
\<close>

lemma queryUsing_reply:
  "fst (queryUsing os d handler client request b) =
    (if ValidateRequest request = None \<and> snd (fst (handler request (br_handler b))) = None
        \<and> ValidateResponse (fst (fst (handler request (br_handler b)))) = None
     then fst (fst (handler request (br_handler b))) else agentFailure)"
  by (auto simp: queryUsing_def Let_def split: prod.splits)

lemma queryUsing_handler:
  "br_handler (snd (queryUsing os d handler client request b)) =
    (if ValidateRequest request = None then snd (handler request (br_handler b)) else br_handler b)"
  by (auto simp: queryUsing_def Let_def split: prod.splits)

text \<open>
  One notice for every well-formed signing request, none for anything else, and its title
  tells a signature from a refusal.
\<close>

lemma queryUsing_notices:
  "br_notices (snd (queryUsing os d handler client request b)) = br_notices b @
    (if ValidateRequest request = None \<and> d then
       (case fst (notifySigning os d request (fst (queryUsing os d handler client request b)) client (br_handles b))
        of None \<Rightarrow> [] | Some n \<Rightarrow> [n]) else [])"
  by (auto simp: queryUsing_def Let_def split: prod.splits)

lemma queryUsing_notice_title:
  assumes "ValidateRequest request = None" "ParseSignRequest request = Some sign"
  shows "\<exists>title body. br_notices (snd (queryUsing os True handler client request b))
      = br_notices b @ [(title, body)]
    \<and> (title = lit ''SSH key used'' \<longleftrightarrow> fst (queryUsing os True handler client request b) ! 4 = 14)"
proof -
  let ?result = "fst (queryUsing os True handler client request b)"
  obtain target where "fst (notifySigning os True request ?result client (br_handles b))
      = Some (signingNotice sign ?result client target)"
    using assms(2) by (simp add: notifySigning_def split_def)
  then show ?thesis
    using assms(1) signingNotice_title [of sign ?result client target]
    by (cases "signingNotice sign ?result client target") (simp add: queryUsing_notices queryUsing_valid)
qed

text \<open>The built-in handler never fails to return a frame the bridge may send.\<close>

lemma defaultHandlerFunc_good: "good_reply (fst (defaultHandlerFunc dial pipeName request s))"
  by (auto simp: defaultHandlerFunc_def QueryAgent_def Query_good)

end
