(* ===== verification/PipeServer.thy ===== *)
theory PipeServer
  imports Bridge
begin

text \<open>
  The named-pipe transport (\<^verbatim>\<open>pageant/run_windows.go\<close>): \<open>pipeListen\<close> reads requests from one
  client and writes the replies, one after another on one connection.
\<close>

section \<open>One request\<close>

text \<open>
  An idle connection has no deadline; after the first byte the rest of the frame has one.
  \<open>None\<close> ends the connection.
\<close>

definition pipe_read_request :: "conn \<Rightarrow> byte list option \<times> conn" where
  "pipe_read_request c =
     (case SetReadDeadline c of
        (Some _, c) \<Rightarrow> (None, c)
      | (None, c) \<Rightarrow>
          (case ReadFull 1 c of
             ((_, Some _), c) \<Rightarrow> (None, c)
           | ((first, None), c) \<Rightarrow>
               (case SetReadDeadline c of
                  (Some _, c) \<Rightarrow> (None, c)
                | (None, c) \<Rightarrow>
                    (case ReadFull 3 c of
                       ((_, Some _), c) \<Rightarrow> (None, c)
                     | ((tail3, None), c) \<Rightarrow>
                         let n = unat (be32 (first @ tail3)) in
                         if n < 1 \<or> n > AgentMaxMessageLength - 4 then (None, c)
                         else (case ReadFull n c of
                                 ((_, Some _), c) \<Rightarrow> (None, c)
                               | ((body, None), c) \<Rightarrow> (Some (first @ tail3 @ body), c))))))"

datatype write_end = Written | Write_stopped | Write_panicked

text \<open>
  The write loop. Slicing the reply by a count outside it panics; \<open>io.Writer\<close> forbids such
  a count.
\<close>

function pipe_write :: "byte list \<Rightarrow> conn \<Rightarrow> write_end \<times> conn" where
  "pipe_write result c =
     (if result = [] then (Written, c)
      else case conn_write result c of
             ((n, Some _), c') \<Rightarrow> (Write_stopped, c')
           | ((n, None), c') \<Rightarrow>
               if n = 0 then (Write_stopped, c')
               else if n < 0 \<or> n > int (length result) then (Write_panicked, c')
               else pipe_write (drop (nat n) result) c')"
  by pat_completeness auto
termination
  by (relation "measure (\<lambda>(result, c). length result)") auto

declare pipe_write.simps [simp del]

datatype pipe_end = Returned | Panicked

section \<open>The loop\<close>

type_synonym 's service = "byte list \<Rightarrow> 's \<Rightarrow> byte list \<times> 's"

definition pipe_step :: "'s service \<Rightarrow> conn \<Rightarrow> 's \<Rightarrow> (pipe_end option \<times> conn) \<times> 's" where
  "pipe_step ask c s =
     (case pipe_read_request c of
        (None, c) \<Rightarrow> ((Some Returned, c), s)
      | (Some request, c) \<Rightarrow>
          (case ask request s of
             (result, s) \<Rightarrow>
               (case SetWriteDeadline c of
                  (Some _, c) \<Rightarrow> ((Some Returned, c), s)
                | (None, c) \<Rightarrow>
                    (case pipe_write result c of
                       (Written, c) \<Rightarrow> ((None, c), s)
                     | (Write_stopped, c) \<Rightarrow> ((Some Returned, c), s)
                     | (Write_panicked, c) \<Rightarrow> ((Some Panicked, c), s)))))"

text \<open>Reading a request.\<close>

lemma pipe_read_request_Some:
  assumes "pipe_read_request c = (Some request, c')"
  shows "stream c = request @ stream c'" and "ValidateRequest request = None"
    and "sent c' = sent c" and "wr_script c' = wr_script c" and "wr_deadlines c' = wr_deadlines c"
proof -
  obtain c1 first c2 c3 tail3 c4 body where
    1: "SetReadDeadline c = (None, c1)" and 2: "ReadFull 1 c1 = ((first, None), c2)"
    and 3: "SetReadDeadline c2 = (None, c3)" and 4: "ReadFull 3 c3 = ((tail3, None), c4)"
    and n: "1 \<le> unat (be32 (first @ tail3))" "unat (be32 (first @ tail3)) \<le> AgentMaxMessageLength - 4"
    and 5: "ReadFull (unat (be32 (first @ tail3))) c4 = ((body, None), c')"
    and request: "request = first @ tail3 @ body"
    using assms
    by (auto simp: pipe_read_request_def Let_def not_less split: prod.splits option.splits if_splits)
  note d = SetReadDeadline_frame [OF 1] ReadFull_Ok [OF 2] SetReadDeadline_frame [OF 3]
    ReadFull_Ok [OF 4] ReadFull_Ok [OF 5]
  show "stream c = request @ stream c'" using d request by simp
  show "sent c' = sent c" "wr_script c' = wr_script c" "wr_deadlines c' = wr_deadlines c"
    using d by (simp_all add: same_but_reads_def)
  have header: "put_be32 (be32 (first @ tail3)) = first @ tail3"
    using d by (intro put_be32_be32) simp
  have "request = frame_of body"
    using d header request by (simp add: frame_of_def)
  then show "ValidateRequest request = None"
    using d n by (auto simp: ValidateRequest_iff AgentMaxMessageLength_def intro!: exI [of _ body])
qed

lemma pipe_read_request_None:
  "pipe_read_request c = (None, c') \<Longrightarrow> sent c' = sent c"
  by (auto simp: pipe_read_request_def Let_def same_but_reads_def
      dest!: ReadFull_frame(1) SetReadDeadline_frame split: prod.splits option.splits if_splits)

text \<open>Writing a reply sends a prefix of it, the whole of it when the loop goes on.\<close>

lemma pipe_write_sends:
  "pipe_write r c = (e, c') \<Longrightarrow>
     same_but_writes c c' \<and> (\<exists>k. sent c' = sent c @ take k r) \<and> (e = Written \<longrightarrow> sent c' = sent c @ r)"
proof (induction r c arbitrary: e c' rule: pipe_write.induct)
  case (1 r c)
  show ?case
  proof (cases "r = []")
    case True
    with "1.prems" show ?thesis by (simp add: pipe_write.simps same_but_writes_def)
  next
    case False
    obtain n e1 c1 where w: "conn_write r c = ((n, e1), c1)" by (metis prod.exhaust)
    note d = conn_write_frame [OF w]
    consider (stop) "e \<noteq> Written" "c' = c1"
      | (go) "e1 = None" "n \<noteq> 0" "\<not> (n < 0 \<or> n > int (length r))" "pipe_write (drop (nat n) r) c1 = (e, c')"
      using "1.prems" False w by (auto simp: pipe_write.simps [of r c] split: option.splits if_splits)
    then show ?thesis
    proof cases
      case stop
      with d show ?thesis by auto
    next
      case go
      from "1.IH" [OF False w [symmetric] refl go] obtain k where
        k: "same_but_writes c1 c'" "sent c' = sent c1 @ take k (drop (nat n) r)"
        "e = Written \<longrightarrow> sent c' = sent c1 @ drop (nat n) r" by blast
      have "take (nat n) r @ take k (drop (nat n) r) = take (nat n + k) r"
        by (simp add: take_add)
      with k d show ?thesis
        by (auto simp: same_but_writes_def intro: exI [of _ "nat n + k"])
    qed
  qed
qed

text \<open>A panic needs a writer that reports more than it was given, or a negative count.\<close>

lemma pipe_write_panic:
  "pipe_write r c = (Write_panicked, c') \<Longrightarrow>
     \<exists>ns n script. wr_script c = map (\<lambda>m. (int m, None)) ns @ (n, None) # script
       \<and> sum_list ns < length r \<and> (n < 0 \<or> n > int (length r - sum_list ns))"
proof (induction r c arbitrary: c' rule: pipe_write.induct)
  case (1 r c)
  then have r: "r \<noteq> []" by (auto simp: pipe_write.simps)
  obtain n e1 c1 where w: "conn_write r c = ((n, e1), c1)" by (metis prod.exhaust)
  with "1.prems" r have e1: "e1 = None" "n \<noteq> 0"
    by (auto simp: pipe_write.simps [of r c] split: option.splits if_splits)
  note script = conn_write_frame(3) [OF w e1(1)]
  show ?case
  proof (cases "n < 0 \<or> n > int (length r)")
    case True
    with script e1 r show ?thesis by (intro exI [of _ "[]"]) auto
  next
    case False
    with "1.prems" r w e1 have "pipe_write (drop (nat n) r) c1 = (Write_panicked, c')"
      by (simp add: pipe_write.simps [of r c])
    from "1.IH" [OF r w [symmetric] refl e1 False this] obtain ns m script where
      s: "wr_script c1 = map (\<lambda>m. (int m, None)) ns @ (m, None) # script"
      "sum_list ns < length (drop (nat n) r)" "m < 0 \<or> m > int (length (drop (nat n) r) - sum_list ns)"
      by blast
    have "wr_script c = map (\<lambda>m. (int m, None)) (nat n # ns) @ (m, None) # script"
      using script e1 s(1) False by simp
    then show ?thesis
      using s False by (intro exI [of _ "nat n # ns"] exI [of _ m] exI [of _ script]) auto
  qed
qed

text \<open>One turn of the loop, by how it goes.\<close>

lemma pipe_step_cases:
  assumes "pipe_step ask c s = ((e, c'), s')"
  obtains (idle) "e = Some Returned" "s' = s" "sent c' = sent c"
  | (stopped) request end_kind k where "e = Some end_kind" "ValidateRequest request = None"
      "prefix request (stream c)" "s' = snd (ask request s)" "sent c' = sent c @ take k (fst (ask request s))"
  | (answered) request where "e = None" "ValidateRequest request = None"
      "stream c = request @ stream c'" "s' = snd (ask request s)" "sent c' = sent c @ fst (ask request s)"
proof (cases "fst (pipe_read_request c)")
  case None
  then obtain c1 where "pipe_read_request c = (None, c1)" by (metis prod.collapse)
  then show ?thesis
    using assms pipe_read_request_None [of c c1] by (intro idle) (auto simp: pipe_step_def)
next
  case (Some request)
  then obtain c1 where r: "pipe_read_request c = (Some request, c1)" by (metis prod.collapse)
  note read = pipe_read_request_Some [OF r]
  obtain d c2 where 2: "SetWriteDeadline c1 = (d, c2)" by (metis prod.exhaust)
  note f2 = SetWriteDeadline_frame [OF 2]
  obtain w c3 where 3: "pipe_write (fst (ask request s)) c2 = (w, c3)" by (metis prod.exhaust)
  note f3 = pipe_write_sends [OF 3]
  have s': "s' = snd (ask request s)"
    using assms r 2 3 by (auto simp: pipe_step_def split_def split: option.splits write_end.splits)
  show ?thesis
  proof (cases "d = None \<and> w = Written")
    case True
    then have "e = None" "c' = c3"
      using assms r 2 3 by (auto simp: pipe_step_def split_def)
    moreover have "stream c = request @ stream c3"
      using read f2 same_but_writes_stream [of c2 c3] f3 by simp
    ultimately show ?thesis
      using read f2 f3 s' True by (intro answered) auto
  next
    case False
    then have e: "e \<noteq> None" "c' = c2 \<or> c' = c3"
      using assms r 2 3 by (auto simp: pipe_step_def split_def split: option.splits write_end.splits)
    then obtain end_kind where "e = Some end_kind" by auto
    moreover have "\<exists>k. sent c' = sent c @ take k (fst (ask request s))"
      using e(2) read f2 f3 by (auto intro: exI [of _ 0])
    ultimately show ?thesis
      using read s' stopped by (metis prefixI)
  qed
qed

text \<open>Every answered request is at least five bytes of the stream, so the loop ends.\<close>

function pipe_loop :: "'s service \<Rightarrow> conn \<Rightarrow> 's \<Rightarrow> pipe_end \<times> conn \<times> 's" where
  "pipe_loop ask c s =
     (case pipe_step ask c s of
        ((Some e, c'), s') \<Rightarrow> (e, c', s')
      | ((None, c'), s') \<Rightarrow> pipe_loop ask c' s')"
  by pat_completeness auto
termination
proof (relation "measure (\<lambda>(ask, c, s). script_size c)")
  fix ask c s p s' oe c'
  assume eq: "(p, s') = pipe_step ask c s" "(oe, c') = p" "oe = None"
  then have "pipe_step ask c s = ((None, c'), s')" by simp
  then show "((ask, c', s'), ask, c, s) \<in> measure (\<lambda>(ask, c, s). script_size c)"
  proof (cases rule: pipe_step_cases)
    case (answered request)
    then show ?thesis
      using ValidateRequest_length [of request] by (auto simp: script_size_def)
  qed simp_all
qed simp

declare pipe_loop.simps [simp del]

section \<open>The stream as a sequence of requests\<close>

definition next_request :: "byte list \<Rightarrow> (byte list \<times> byte list) option" where
  "next_request bs =
     (if length bs < 4 then None
      else let n = unat (be32 bs) in
        if n < 1 \<or> n > AgentMaxMessageLength - 4 \<or> length bs < 4 + n then None
        else Some (take (4 + n) bs, drop (4 + n) bs))"

text \<open>The requests at the front of a stream, up to the first incomplete or refused one.\<close>

function requests_of :: "byte list \<Rightarrow> byte list list" where
  "requests_of bs =
     (case next_request bs of
        None \<Rightarrow> []
      | Some (request, rest) \<Rightarrow> request # requests_of rest)"
  by pat_completeness auto
termination
  by (relation "measure length") (auto simp: next_request_def Let_def split: if_splits)

declare requests_of.simps [simp del]

lemma next_request_frame:
  assumes "ValidateRequest request = None"
  shows "next_request (request @ rest) = Some (request, rest)"
proof -
  from assms obtain p where p: "p \<noteq> []" "length p \<le> 16379" "request = frame_of p"
    by (auto simp: ValidateRequest_iff)
  then have "unat (be32 (request @ rest)) = length p"
    by (simp add: frame_of_def)
  with p show ?thesis
    by (auto simp: next_request_def Let_def AgentMaxMessageLength_def frame_of_def Suc_le_eq)
qed

lemma requests_of_frame:
  "ValidateRequest request = None \<Longrightarrow> requests_of (request @ rest) = request # requests_of rest"
  by (simp add: requests_of.simps [of "request @ rest"] next_request_frame)

lemma requests_of_frames:
  "list_all (\<lambda>r. ValidateRequest r = None) rs \<Longrightarrow> requests_of (concat rs @ rest) = rs @ requests_of rest"
  by (induction rs) (simp_all add: requests_of_frame)

lemma next_request_Some:
  assumes "next_request bs = Some (request, rest)"
  shows "bs = request @ rest" and "ValidateRequest request = None"
proof -
  let ?n = "unat (be32 bs)"
  have n: "1 \<le> ?n" "?n \<le> 16379" "4 + ?n \<le> length bs" "request = take (4 + ?n) bs" "rest = drop (4 + ?n) bs"
    using assms by (auto simp: next_request_def Let_def AgentMaxMessageLength_def split: if_splits)
  show "bs = request @ rest" using n by simp
  have "request = take 4 bs @ take ?n (drop 4 bs)"
    using n by (simp add: take_add)
  moreover have "put_be32 (be32 bs) = take 4 bs"
    using put_be32_be32 [of "take 4 bs"] n by simp
  ultimately have "request = frame_of (take ?n (drop 4 bs))"
    using n by (simp add: frame_of_def)
  then show "ValidateRequest request = None"
    using n by (auto simp: ValidateRequest_iff intro!: exI [of _ "take ?n (drop 4 bs)"])
qed

lemma requests_of_prefix:
  "prefix (concat (requests_of bs)) bs \<and> list_all (\<lambda>r. ValidateRequest r = None) (requests_of bs)"
proof (induction bs rule: requests_of.induct)
  case (1 bs)
  show ?case
  proof (cases "next_request bs")
    case None
    then show ?thesis by (simp add: requests_of.simps)
  next
    case (Some p)
    obtain request rest where p: "p = (request, rest)" by (cases p)
    note n = next_request_Some [OF Some [unfolded p]]
    show ?thesis
      using 1 [OF Some p [symmetric]] Some p n by (simp add: requests_of_frame)
  qed
qed

section \<open>Everything the loop does\<close>

lemma run_queries_Cons:
  "fst (run_queries ask (q # qs) s) = fst (ask q s) # fst (run_queries ask qs (snd (ask q s)))"
  "snd (run_queries ask (q # qs) s) = snd (run_queries ask qs (snd (ask q s)))"
  by (simp_all add: split_def Let_def)

declare run_queries.simps(2) [simp del]

text \<open>
  On any connection: the requests served are the first of the stream, in order; what was
  sent is a prefix of the replies to them, in order; the state is the one they lead to.
\<close>

definition explained :: "'s service \<Rightarrow> conn \<Rightarrow> 's \<Rightarrow> conn \<Rightarrow> 's \<Rightarrow> byte list list \<Rightarrow> bool" where
  "explained ask c s c' s' served \<longleftrightarrow>
     prefix served (requests_of (stream c)) \<and> s' = snd (run_queries ask served s)
     \<and> (\<exists>k. sent c' = sent c @ take k (concat (fst (run_queries ask served s))))"

lemma pipe_loop_explained:
  "pipe_loop ask c s = (e, c', s') \<Longrightarrow> \<exists>served. explained ask c s c' s' served"
proof (induction ask c s rule: pipe_loop.induct)
  case (1 ask c s)
  obtain oe c1 s1 where step: "pipe_step ask c s = ((oe, c1), s1)" by (metis prod.exhaust)
  from step show ?case
  proof (cases rule: pipe_step_cases)
    case idle
    then have "c' = c1" "s' = s1" using "1.prems" step by (simp_all add: pipe_loop.simps [of ask c s])
    with idle have "explained ask c s c' s' []" by (simp add: explained_def)
    then show ?thesis by blast
  next
    case (stopped request end_kind k)
    then have eq: "c' = c1" "s' = s1" using "1.prems" step by (simp_all add: pipe_loop.simps [of ask c s])
    from stopped(3) obtain rest where "stream c = request @ rest" by (auto simp: prefix_def)
    with stopped eq have "explained ask c s c' s' [request]"
      by (auto simp: explained_def requests_of_frame run_queries_Cons)
    then show ?thesis by blast
  next
    case (answered request)
    then have "pipe_loop ask c1 s1 = (e, c', s')" using "1.prems" step by (simp add: pipe_loop.simps [of ask c s])
    from "1.IH" [OF step [symmetric] refl answered(1) this] obtain served k where
      IH: "prefix served (requests_of (stream c1))" "s' = snd (run_queries ask served s1)"
        "sent c' = sent c1 @ take k (concat (fst (run_queries ask served s1)))"
      unfolding explained_def by blast
    have "explained ask c s c' s' (request # served)"
      unfolding explained_def answered(3) requests_of_frame [OF answered(2)] run_queries_Cons
      using IH answered by (auto intro!: exI [of _ "length (fst (ask request s)) + k"])
    then show ?thesis by blast
  qed
qed

section \<open>A well-behaved client gets every reply\<close>

definition deadlines_work :: "conn \<Rightarrow> bool" where
  "deadlines_work c \<longleftrightarrow> list_all (\<lambda>e. e = None) (rd_deadlines c) \<and> list_all (\<lambda>e. e = None) (wr_deadlines c)"

lemma deadlines_work_steps:
  assumes "deadlines_work c"
  shows "\<exists>c'. SetReadDeadline c = (None, c') \<and> deadlines_work c'"
    and "\<exists>c'. SetWriteDeadline c = (None, c') \<and> deadlines_work c'"
  using assms
  by (auto simp: SetReadDeadline_def SetWriteDeadline_def deadlines_work_def split: list.split)

lemma same_but_reads_deadlines: "same_but_reads c c' \<Longrightarrow> deadlines_work c' = deadlines_work c"
  by (simp add: same_but_reads_def deadlines_work_def)

lemma same_but_writes_deadlines: "same_but_writes c c' \<Longrightarrow> deadlines_work c' = deadlines_work c"
  by (simp add: same_but_writes_def deadlines_work_def)

text \<open>Whatever the sizes of the chunks, a request that is there is read whole.\<close>

lemma pipe_read_request_complete:
  assumes clean: "clean_reads c" and dl: "deadlines_work c"
    and s: "stream c = request @ rest" and v: "ValidateRequest request = None"
  shows "\<exists>c'. pipe_read_request c = (Some request, c') \<and> stream c' = rest \<and> clean_reads c'
    \<and> deadlines_work c' \<and> sent c' = sent c \<and> wr_script c' = wr_script c"
proof -
  from v obtain p where p: "p \<noteq> []" "length p \<le> 16379" "request = frame_of p"
    by (auto simp: ValidateRequest_iff)
  let ?header = "put_be32 (u32_of (length p))"
  obtain h0 h123 where h: "?header = [h0] @ h123" "length h123 = 3"
    by (simp add: put_be32_def)
  have str: "stream c = [h0] @ h123 @ p @ rest"
    using s p h(1) by (simp add: frame_of_def)
  have n: "unat (be32 ([h0] @ h123)) = length p"
    using p(2) unfolding h(1) [symmetric] by simp
  obtain c1 where 1: "SetReadDeadline c = (None, c1)" "deadlines_work c1"
    using deadlines_work_steps(1) [OF dl] by blast
  note f1 = SetReadDeadline_frame [OF 1(1)]
  obtain c2 where 2: "ReadFull 1 c1 = (([h0], None), c2)" "stream c2 = h123 @ p @ rest"
      "same_but_reads c1 c2" "clean_reads c2"
    using ReadFull_clean [of c1 1] f1 clean str by auto
  obtain c3 where 3: "SetReadDeadline c2 = (None, c3)" "deadlines_work c3"
    using deadlines_work_steps(1) [of c2] 1(2) same_but_reads_deadlines [OF 2(3)] by blast
  note f3 = SetReadDeadline_frame [OF 3(1)]
  obtain c4 where 4: "ReadFull 3 c3 = ((h123, None), c4)" "stream c4 = p @ rest"
      "same_but_reads c3 c4" "clean_reads c4"
    using ReadFull_clean [of c3 3] f3 2 h(2) by auto
  obtain c5 where 5: "ReadFull (length p) c4 = ((p, None), c5)" "stream c5 = rest"
      "same_but_reads c4 c5" "clean_reads c5"
    using ReadFull_clean [of c4 "length p"] 4 by auto
  have "pipe_read_request c = (Some ([h0] @ h123 @ p), c5)"
    using 1 2 3 4 5 n p
    by (simp add: pipe_read_request_def Let_def AgentMaxMessageLength_def Suc_le_eq del: append_Cons)
  moreover have "request = [h0] @ h123 @ p"
    using p(3) h(1) by (simp add: frame_of_def)
  moreover have "deadlines_work c5"
    using 3(2) same_but_reads_deadlines [OF 4(3)] same_but_reads_deadlines [OF 5(3)] by simp
  ultimately show ?thesis
    using f1 f3 2(3) 4(3) 5 by (auto simp: same_but_reads_def)
qed

lemma pipe_write_whole:
  assumes "wr_script c = (int (length r), None) # script" "r \<noteq> []"
  shows "\<exists>c'. pipe_write r c = (Written, c') \<and> wr_script c' = script \<and> sent c' = sent c @ r
    \<and> same_but_writes c c'"
  using assms
  by (subst pipe_write.simps) (simp add: conn_write_def pipe_write.simps same_but_writes_def)

context frame_service
begin

lemma pipe_loop_served:
  assumes "clean_reads c" "deadlines_work c" "stream c = concat requests @ rest"
    and "list_all (\<lambda>r. ValidateRequest r = None) requests"
    and "wr_script c = map (\<lambda>r. (int (length r), None)) (fst (run_queries ask requests s)) @ script"
  shows "\<exists>c'. pipe_loop ask c s = pipe_loop ask c' (snd (run_queries ask requests s))
    \<and> sent c' = sent c @ concat (fst (run_queries ask requests s))
    \<and> stream c' = rest \<and> clean_reads c' \<and> deadlines_work c' \<and> wr_script c' = script"
  using assms
proof (induction requests arbitrary: c s)
  case Nil
  then show ?case by auto
next
  case (Cons request requests)
  let ?r = "fst (ask request s)" and ?s = "snd (ask request s)"
  have r: "?r \<noteq> []" using ask_length(1) [of request s] by auto
  obtain c1 where 1: "pipe_read_request c = (Some request, c1)" "stream c1 = concat requests @ rest"
      "clean_reads c1" "deadlines_work c1" "sent c1 = sent c" "wr_script c1 = wr_script c"
    using pipe_read_request_complete [of c request "concat requests @ rest"] Cons.prems by auto
  obtain c2 where 2: "SetWriteDeadline c1 = (None, c2)" "deadlines_work c2"
    using deadlines_work_steps(2) [OF 1(4)] by blast
  note f2 = SetWriteDeadline_frame [OF 2(1)]
  obtain c3 where 3: "pipe_write ?r c2 = (Written, c3)" "sent c3 = sent c2 @ ?r" "same_but_writes c2 c3"
      "wr_script c3 = map (\<lambda>r. (int (length r), None)) (fst (run_queries ask requests ?s)) @ script"
    using pipe_write_whole [of c2 ?r] f2 1(6) Cons.prems(5) r by (auto simp: run_queries_Cons)
  have c3: "clean_reads c3" "deadlines_work c3" "stream c3 = concat requests @ rest"
    using same_but_writes_stream [OF 3(3)] same_but_writes_deadlines [OF 3(3)] f2 2 1 by auto
  have step: "pipe_step ask c s = ((None, c3), ?s)"
    using 1(1) 2(1) 3(1) by (simp add: pipe_step_def split_def)
  from Cons.IH [OF c3 _ 3(4)] Cons.prems(4) obtain c' where
    "pipe_loop ask c3 ?s = pipe_loop ask c' (snd (run_queries ask requests ?s))"
    "sent c' = sent c3 @ concat (fst (run_queries ask requests ?s))"
    "stream c' = rest" "clean_reads c'" "deadlines_work c'" "wr_script c' = script"
    by auto
  moreover have "pipe_loop ask c s = pipe_loop ask c3 ?s"
    by (simp add: pipe_loop.simps [of ask c s] step)
  ultimately show ?case
    using 3(2) f2 1(5) by (intro exI [of _ c']) (simp add: run_queries_Cons)
qed

text \<open>Every byte sent belongs to a valid reply frame.\<close>

lemma replies_valid: "list_all (\<lambda>r. ValidateResponse r = None) (fst (run_queries ask qs s))"
  by (induction qs arbitrary: s) (simp_all add: run_queries_Cons ask_valid)

lemma run_handles: "held_handles (snd (run_queries ask qs s)) = held_handles s"
  by (induction qs arbitrary: s) (simp_all add: run_queries_Cons ask_handles)

end

section \<open>pipeListen\<close>

text \<open>
  The client is identified once, then the loop serves it. With the built-in handler the
  loop's state is a \<open>Session\<close> of its own, closed when the loop returns; while the program
  is closing, it is closed without serving. A custom handler keeps whatever state it has.
\<close>

definition serve_client ::
  "('a) client_os_scheme \<Rightarrow> bool \<Rightarrow> ('s, 'e) request_handler \<Rightarrow> handle option \<Rightarrow> conn \<Rightarrow> 's bridge
   \<Rightarrow> pipe_end \<times> conn \<times> 's bridge" where
  "serve_client os has_desktop handler fd c b =
     (case clientFromPipe os fd (br_handles b) of
        (client, hs) \<Rightarrow>
          pipe_loop (queryUsing os has_desktop handler client) c (b\<lparr>br_handles := hs\<rparr>))"

definition pipeListen_default ::
  "('a) client_os_scheme \<Rightarrow> bool \<Rightarrow> (gostr \<Rightarrow> io_error + conn) \<Rightarrow> gostr \<Rightarrow> bool \<Rightarrow> handle option
   \<Rightarrow> conn \<Rightarrow> session bridge \<Rightarrow> pipe_end \<times> conn \<times> session bridge" where
  "pipeListen_default os has_desktop dial pipeName closing fd c b =
     (let b = b\<lparr>br_handler := NewSession pipeName\<rparr> in
      if closing then (Returned, c, b\<lparr>br_handler := snd (Close (br_handler b))\<rparr>)
      else case serve_client os has_desktop (Query dial) fd c b of
        (e, c, b) \<Rightarrow> (e, c, b\<lparr>br_handler := snd (Close (br_handler b))\<rparr>))"

lemma serve_client_loop:
  "serve_client os d handler fd c b =
     pipe_loop (queryUsing os d handler (fst (clientFromPipe os fd (br_handles b)))) c b"
  using clientFromPipe_spec(1) [of os fd "br_handles b"]
  by (simp add: serve_client_def split_def)

lemma serve_client_explained:
  assumes "serve_client os d handler fd c b = (e, c', b')"
  shows "\<exists>served. explained (queryUsing os d handler (fst (clientFromPipe os fd (br_handles b)))) c b c' b' served"
  by (rule pipe_loop_explained) (use assms in \<open>simp add: serve_client_loop\<close>)

lemma serve_client_handles:
  assumes "serve_client os d handler fd c b = (e, c', b')"
  shows "br_handles b' = br_handles b"
  using serve_client_explained [OF assms] query_service.run_handles
  by (auto simp: explained_def)

lemma pipeListen_default_closes:
  "session_closed (br_handler (snd (snd (pipeListen_default os d dial pipeName closing fd c b))))"
  by (simp add: pipeListen_default_def Let_def split_def)

lemma pipeListen_default_sends_nothing_when_closing:
  "pipeListen_default os d dial pipeName True fd c b = (e, c', b') \<Longrightarrow> c' = c \<and> e = Returned"
  by (auto simp: pipeListen_default_def)

end
