(* ===== verification/CopyData.thy ===== *)
theory CopyData
  imports Bridge
begin

text \<open>
  The legacy transport (\<^verbatim>\<open>pageant/run_windows.go\<close>): a \<open>WM_COPYDATA\<close> message names a shared
  file mapping that holds one request and receives the reply. \<open>copyDataName\<close> bounds the
  name, \<open>handleCopyData\<close> opens, checks and answers.

  The mapping stays writable for its creator while the request is served. The model lets
  it change the bytes at will between the program's accesses: once after the length was
  read, once while the handler runs.
\<close>

section \<open>The message\<close>

definition agentCopyDataID :: u64 where
  "agentCopyDataID = 0x804e50ba"

record copyDataStruct =
  dwData :: u64
  cbData :: u32
  lpData :: u64

text \<open>Process memory is a function from addresses to bytes.\<close>

definition copyDataName :: "(nat \<Rightarrow> byte) \<Rightarrow> copyDataStruct \<Rightarrow> byte list option" where
  "copyDataName mem cd =
     (if dwData cd \<noteq> agentCopyDataID \<or> lpData cd = 0 \<or> cbData cd < 2 \<or> cbData cd > 260 then None
      else
        let name = map (\<lambda>i. mem (unat (lpData cd) + i)) [0..<unat (cbData cd)] in
        if last name \<noteq> 0 \<or> 0 \<in> set (butlast name) then None else Some name)"

text \<open>What is accepted: a non-empty NUL-terminated string of at most 260 bytes, NUL included.\<close>

lemma copyDataName_Some:
  assumes "copyDataName mem cd = Some name"
  shows "\<exists>s. name = s @ [0] \<and> s \<noteq> [] \<and> 0 \<notin> set s \<and> length name \<le> 260
    \<and> length name = unat (cbData cd) \<and> (\<forall>i < length name. name ! i = mem (unat (lpData cd) + i))"
proof -
  let ?n = "unat (cbData cd)"
  have bounds: "2 \<le> ?n" "?n \<le> 260"
    using assms by (auto simp: copyDataName_def word_less_nat_alt not_less split: if_splits)
  have name: "name = map (\<lambda>i. mem (unat (lpData cd) + i)) [0..<?n]" "last name = 0" "0 \<notin> set (butlast name)"
    using assms by (auto simp: copyDataName_def Let_def split: if_splits)
  have len: "length name = ?n" using name(1) by simp
  then have "name \<noteq> []" using bounds by auto
  then have "name = butlast name @ [0]" using name(2) by (metis append_butlast_last_id)
  moreover have "butlast name \<noteq> []" using len bounds by (auto simp flip: length_0_conv)
  ultimately show ?thesis
    using name len bounds by (intro exI [of _ "butlast name"]) (auto simp del: butlast.simps)
qed

section \<open>The handler\<close>

text \<open>
  The calls beyond those of \<open>client_os\<close>: \<open>OpenFileMappingA\<close>, \<open>MapViewOfFile\<close> (the view's
  address), whether \<open>VirtualQuery\<close> succeeds, and what the other process does to the bytes
  at the two moments. The region's bytes are \<open>shared_bytes\<close>; their number is its
  \<open>RegionSize\<close>.
\<close>

record copydata_os = client_os +
  os_memory :: "nat \<Rightarrow> byte"
  os_message :: "u64 \<Rightarrow> copyDataStruct"
  os_open_mapping :: "byte list \<Rightarrow> handle option"
  os_map_view :: "handle \<Rightarrow> nat option"
  os_virtual_query :: "nat \<Rightarrow> bool"
  os_meddle_read :: "byte list \<Rightarrow> byte list"
  os_meddle_serve :: "byte list \<Rightarrow> byte list"

record 's mapping_state = "'s bridge" +
  open_views :: "nat list"
  shared_bytes :: "byte list"

definition map_view :: "nat \<Rightarrow> nat list \<Rightarrow> nat list" where
  "map_view v vs = v # vs"

definition UnmapViewOfFile :: "nat \<Rightarrow> nat list \<Rightarrow> nat list" where
  "UnmapViewOfFile v vs = remove1 v vs"

text \<open>The part after the view is mapped, with the view still open.\<close>

definition serve_view ::
  "('a) copydata_os_scheme \<Rightarrow> bool \<Rightarrow> ('s, 'e) request_handler \<Rightarrow> byte list \<Rightarrow> nat
   \<Rightarrow> 's mapping_state \<Rightarrow> bool \<times> 's mapping_state" where
  "serve_view os has_desktop handler name view m =
     (if \<not> os_virtual_query os view \<or> length (shared_bytes m) < 5 then (False, m)
      else
        let n = min (length (shared_bytes m)) AgentMaxMessageLength;
            len = unat (be32 (take 4 (shared_bytes m))) in
        if len < 1 \<or> len > n - 4 then (False, m)
        else
          let m = m\<lparr>shared_bytes := os_meddle_read os (shared_bytes m)\<rparr>;
              request = take (len + 4) (shared_bytes m) in
          (case clientFromMapping os (butlast name) (br_handles m) of
             (client, hs) \<Rightarrow>
               (case queryUsing os has_desktop handler client request
                       \<lparr>br_handler = br_handler m, br_handles = hs, br_notices = br_notices m\<rparr> of
                  (result, b) \<Rightarrow>
                    let result = (if length result > n then agentFailure else result);
                        bytes = os_meddle_serve os (shared_bytes m)
                    in (True, m\<lparr>br_handler := br_handler b, br_handles := br_handles b,
                          br_notices := br_notices b,
                          shared_bytes := result @ drop (length result) bytes\<rparr>))))"

definition handleCopyData ::
  "('a) copydata_os_scheme \<Rightarrow> bool \<Rightarrow> ('s, 'e) request_handler \<Rightarrow> u64
   \<Rightarrow> 's mapping_state \<Rightarrow> bool \<times> 's mapping_state" where
  "handleCopyData os has_desktop handler lp m =
     (if lp = 0 then (False, m)
      else case copyDataName (os_memory os) (os_message os lp) of
        None \<Rightarrow> (False, m)
      | Some name \<Rightarrow>
          (case os_open_mapping os name of
             None \<Rightarrow> (False, m)
           | Some h \<Rightarrow>
               let m = m\<lparr>br_handles := acquire h (br_handles m)\<rparr>;
                   close = (\<lambda>(r, m). (r, m\<lparr>br_handles := CloseHandle h (br_handles m)\<rparr>)) in
               (case GetUserSID os of
                  Inl _ \<Rightarrow> close (False, m)
                | Inr userSID \<Rightarrow>
                    if GetHandleSID os h \<noteq> Inr userSID then close (False, m)
                    else case os_map_view os h of
                      None \<Rightarrow> close (False, m)
                    | Some view \<Rightarrow>
                        (case serve_view os has_desktop handler name view
                                (m\<lparr>open_views := map_view view (open_views m)\<rparr>) of
                           (r, m) \<Rightarrow>
                             close (r, m\<lparr>open_views := UnmapViewOfFile view (open_views m)\<rparr>)))))"

section \<open>Properties of the part that serves\<close>

lemma unmap_map [simp]: "UnmapViewOfFile v (map_view v vs) = vs"
  by (simp add: UnmapViewOfFile_def map_view_def)

lemma serve_view_frame:
  "br_handles (snd (serve_view os d handler name view m)) = br_handles m"
  "open_views (snd (serve_view os d handler name view m)) = open_views m"
  by (simp_all add: serve_view_def Let_def split_def queryUsing_handles clientFromMapping_spec)

text \<open>The other process may change the bytes, not their number.\<close>

definition keeps_size :: "('a) copydata_os_scheme \<Rightarrow> bool" where
  "keeps_size os \<longleftrightarrow> (\<forall>bs. length (os_meddle_read os bs) = length bs \<and> length (os_meddle_serve os bs) = length bs)"

text \<open>
  A served request leaves a valid reply frame at the start of the mapping, inside the
  protocol's shared buffer, and touches no byte after it.
\<close>

lemma serve_view_served:
  assumes "serve_view os d handler name view m = (True, m')" and "keeps_size os"
  shows "\<exists>reply. ValidateResponse reply = None
    \<and> length reply \<le> min (length (shared_bytes m)) AgentMaxMessageLength
    \<and> shared_bytes m' = reply @ drop (length reply)
        (os_meddle_serve os (os_meddle_read os (shared_bytes m)))
    \<and> length (shared_bytes m') = length (shared_bytes m)"
proof -
  let ?n = "min (length (shared_bytes m)) AgentMaxMessageLength"
  let ?client = "clientFromMapping os (butlast name) (br_handles m)"
  obtain client b request where
    m': "shared_bytes m' = (let result = fst (queryUsing os d handler client request b);
        result = (if length result > ?n then agentFailure else result)
      in result @ drop (length result) (os_meddle_serve os (os_meddle_read os (shared_bytes m))))"
    and n: "5 \<le> length (shared_bytes m)"
  proof (rule that [of "fst ?client"
        "take (unat (be32 (take 4 (shared_bytes m))) + 4) (os_meddle_read os (shared_bytes m))"
        "\<lparr>br_handler = br_handler m, br_handles = snd ?client, br_notices = br_notices m\<rparr>"])
    show "5 \<le> length (shared_bytes m)"
      using assms(1) by (auto simp: serve_view_def split: if_splits)
  qed (use assms(1) in \<open>auto simp: serve_view_def Let_def split_def split: if_splits\<close>)
  let ?r = "fst (queryUsing os d handler client request b)"
  define reply where "reply = (if length ?r > ?n then agentFailure else ?r)"
  have "ValidateResponse reply = None"
    by (simp add: reply_def agentFailure_generic queryUsing_valid)
  moreover have "length reply \<le> ?n"
    using n by (auto simp: reply_def agentFailure_def AgentMaxMessageLength_def)
  ultimately show ?thesis
    using m' assms(2) by (intro exI [of _ reply]) (auto simp: reply_def keeps_size_def Let_def)
qed

text \<open>When nothing is served, the handler did not run and the bytes are as they were.\<close>

lemma serve_view_refused:
  "\<not> fst (serve_view os d handler name view m) \<Longrightarrow> snd (serve_view os d handler name view m) = m"
  by (auto simp: serve_view_def Let_def split_def split: if_splits)

section \<open>Properties of handleCopyData\<close>

text \<open>The mapping the message names belongs to the user this process runs as.\<close>

definition own_mapping :: "('a) copydata_os_scheme \<Rightarrow> u64 \<Rightarrow> bool" where
  "own_mapping os lp \<longleftrightarrow> (\<exists>name h user. copyDataName (os_memory os) (os_message os lp) = Some name
     \<and> os_open_mapping os name = Some h \<and> GetHandleSID os h = Inr user \<and> GetUserSID os = Inr user)"

lemma handleCopyData_no_leak:
  "br_handles (snd (handleCopyData os d handler lp m)) = br_handles m"
  "open_views (snd (handleCopyData os d handler lp m)) = open_views m"
  by (auto simp: handleCopyData_def Let_def split_def serve_view_frame split: option.split sum.split)

lemma handleCopyData_cases:
  obtains (refused) "handleCopyData os d handler lp m = (False, m)"
  | (served) name h view m1 where "handleCopyData os d handler lp m
      = (True, m1\<lparr>br_handles := br_handles m, open_views := open_views m\<rparr>)"
      "own_mapping os lp" "lp \<noteq> 0"
      "serve_view os d handler name view
        (m\<lparr>br_handles := acquire h (br_handles m), open_views := map_view view (open_views m)\<rparr>) = (True, m1)"
proof (cases "fst (handleCopyData os d handler lp m)")
  case False
  have "snd (handleCopyData os d handler lp m) = m"
    using False
    by (auto simp: handleCopyData_def Let_def split_def serve_view_refused
        split: option.splits sum.splits if_splits)
  with False show ?thesis by (intro refused) (simp add: prod_eq_iff)
next
  case True
  then obtain name h view user where
    steps: "copyDataName (os_memory os) (os_message os lp) = Some name" "os_open_mapping os name = Some h"
      "GetUserSID os = Inr user" "GetHandleSID os h = Inr user" "os_map_view os h = Some view" "lp \<noteq> 0"
    by (auto simp: handleCopyData_def Let_def split_def split: option.splits sum.splits if_splits)
  let ?m = "m\<lparr>br_handles := acquire h (br_handles m), open_views := map_view view (open_views m)\<rparr>"
  obtain r m1 where s: "serve_view os d handler name view ?m = (r, m1)"
    by (metis prod.exhaust)
  with True steps have "r" by (simp add: handleCopyData_def Let_def)
  moreover have "br_handles m1 = br_handles ?m" "open_views m1 = open_views ?m"
    using serve_view_frame [of os d handler name view ?m] s by simp_all
  ultimately show ?thesis
    using s steps by (intro served) (auto simp: handleCopyData_def Let_def own_mapping_def)
qed

lemma handleCopyData_refused:
  "fst (handleCopyData os d handler lp m) = False \<Longrightarrow> snd (handleCopyData os d handler lp m) = m"
  by (cases rule: handleCopyData_cases [of os d handler lp m]) auto

lemma handleCopyData_served:
  assumes "fst (handleCopyData os d handler lp m)" and "keeps_size os"
  shows "own_mapping os lp \<and>
    (\<exists>reply. ValidateResponse reply = None
      \<and> length reply \<le> min (length (shared_bytes m)) AgentMaxMessageLength
      \<and> shared_bytes (snd (handleCopyData os d handler lp m)) = reply @ drop (length reply)
          (os_meddle_serve os (os_meddle_read os (shared_bytes m))))"
proof (cases rule: handleCopyData_cases [of os d handler lp m])
  case (served name h view m1)
  from serve_view_served [OF served(4) assms(2)] served(1,2) show ?thesis by auto
qed (use assms in simp)

text \<open>
  The handler is called at most once, on a valid request, and never for another user's
  mapping: its state is the old one, or the one it returns for a valid request.
\<close>

lemma serve_view_handler:
  "br_handler (snd (serve_view os d handler name view m)) = br_handler m
   \<or> (\<exists>request. ValidateRequest request = None
       \<and> br_handler (snd (serve_view os d handler name view m)) = snd (handler request (br_handler m)))"
  by (auto simp: serve_view_def Let_def split_def queryUsing_handler)

lemma handleCopyData_handler:
  "br_handler (snd (handleCopyData os d handler lp m)) = br_handler m
   \<or> (own_mapping os lp \<and> (\<exists>request. ValidateRequest request = None
       \<and> br_handler (snd (handleCopyData os d handler lp m)) = snd (handler request (br_handler m))))"
proof (cases rule: handleCopyData_cases [of os d handler lp m])
  case (served name h view m1)
  then show ?thesis
    using serve_view_handler [of os d handler name view
        "m\<lparr>br_handles := acquire h (br_handles m), open_views := map_view view (open_views m)\<rparr>"]
    by auto
qed simp

end
