(* ===== verification/Clients.thy ===== *)
theory Clients
  imports Machine
begin

text \<open>
  The pipe server's tables (\<^verbatim>\<open>pageant/run_windows.go\<close>): \<open>pipeProxy\<close> accepts connections and
  starts a worker for each, \<open>pipeListen\<close> registers its upstream session and undoes
  everything when it returns, \<open>closeConnections\<close> runs once at shutdown. Each section under
  the mutex \<open>mu\<close> is one step; so is each \<open>Close\<close> outside it, and each of the calls a worker
  blocks in. The deferred calls run in the reverse of the order they were set up.

  What the program does on its own (\<open>server_step\<close>) is kept apart from what others do
  (\<open>server_env\<close>: clients, the agent, a custom handler). A blocked call returns on its own
  only because of what it blocks on: \<open>Accept\<close> when the listener is closed, a read or write
  when the connection is closed, a query when its session is. So it is \<open>closeConnections\<close>
  that wakes the workers up.

  A connection, its worker and its upstream session share a number.
\<close>

section \<open>The machine\<close>

definition maxClients :: nat where
  "maxClients = 32"

datatype proxy_pc =
    P_accepting
  | P_deciding nat      \<comment> \<open>accepted, before the lock\<close>
  | P_rejecting nat     \<comment> \<open>after the unlock, before \<open>c.Close\<close>\<close>
  | P_stopped

datatype worker_pc =
    W_none
  | W_starting
  | W_created           \<comment> \<open>\<open>NewSession\<close> returned, session not registered\<close>
  | W_reading           \<comment> \<open>in the loop with its session: waits for a request\<close>
  | W_querying          \<comment> \<open>inside \<open>upstream.Query\<close>\<close>
  | W_writing           \<comment> \<open>sends the reply\<close>
  | C_reading           \<comment> \<open>in the loop with a custom handler\<close>
  | C_handling          \<comment> \<open>inside the custom handler\<close>
  | C_writing
  | W_unregistering
  | W_closing_session
  | W_closing_conn
  | W_removing

record server =
  closing :: bool
  listener_open :: bool
  clients :: "nat set"
  upstreams :: "nat set"
  proxy :: proxy_pc
  worker :: "nat \<Rightarrow> worker_pc"
  conns_open :: "nat set"
  sessions_open :: "nat set"
  accepted :: nat

definition init_server :: "server \<Rightarrow> bool" where
  "init_server s \<longleftrightarrow> s = \<lparr>closing = False, listener_open = True, clients = {}, upstreams = {},
     proxy = P_accepting, worker = (\<lambda>_. W_none), conns_open = {}, sessions_open = {}, accepted = 0\<rparr>"

definition goto :: "nat \<Rightarrow> worker_pc \<Rightarrow> server \<Rightarrow> server" where
  "goto c pc s = s\<lparr>worker := (worker s)(c := pc)\<rparr>"

text \<open>\<open>closeConnections\<close>, under the lock from beginning to end.\<close>

definition closeConnections :: "server \<Rightarrow> server" where
  "closeConnections s = s\<lparr>closing := True, listener_open := False,
     conns_open := conns_open s - clients s, sessions_open := sessions_open s - upstreams s\<rparr>"

inductive server_step :: "server \<Rightarrow> server \<Rightarrow> bool" where
  accept_fails: "proxy s = P_accepting \<Longrightarrow> \<not> listener_open s \<Longrightarrow>
     server_step s (s\<lparr>proxy := P_stopped\<rparr>)"
| reject: "proxy s = P_deciding c \<Longrightarrow> closing s \<or> card (clients s) \<ge> maxClients \<Longrightarrow>
     server_step s (s\<lparr>proxy := P_rejecting c\<rparr>)"
| reject_close: "proxy s = P_rejecting c \<Longrightarrow>
     server_step s (s\<lparr>proxy := P_accepting, conns_open := conns_open s - {c}\<rparr>)"
| admit: "proxy s = P_deciding c \<Longrightarrow> \<not> closing s \<Longrightarrow> card (clients s) < maxClients \<Longrightarrow>
     server_step s ((goto c W_starting s)\<lparr>proxy := P_accepting, clients := insert c (clients s)\<rparr>)"
| new_session: "worker s c = W_starting \<Longrightarrow>
     server_step s ((goto c W_created s)\<lparr>sessions_open := insert c (sessions_open s)\<rparr>)"
| custom_handler: "worker s c = W_starting \<Longrightarrow> server_step s (goto c C_reading s)"
| give_up: "worker s c = W_created \<Longrightarrow> closing s \<Longrightarrow> server_step s (goto c W_closing_session s)"
| register: "worker s c = W_created \<Longrightarrow> \<not> closing s \<Longrightarrow>
     server_step s ((goto c W_reading s)\<lparr>upstreams := insert c (upstreams s)\<rparr>)"
| loop_fails: "worker s c \<in> {W_reading, W_writing} \<Longrightarrow> c \<notin> conns_open s \<Longrightarrow>
     server_step s (goto c W_unregistering s)"
| query_fails: "worker s c = W_querying \<Longrightarrow> c \<notin> sessions_open s \<Longrightarrow> server_step s (goto c W_writing s)"
| custom_fails: "worker s c \<in> {C_reading, C_writing} \<Longrightarrow> c \<notin> conns_open s \<Longrightarrow>
     server_step s (goto c W_closing_conn s)"
| unregister: "worker s c = W_unregistering \<Longrightarrow>
     server_step s ((goto c W_closing_session s)\<lparr>upstreams := upstreams s - {c}\<rparr>)"
| close_session: "worker s c = W_closing_session \<Longrightarrow>
     server_step s ((goto c W_closing_conn s)\<lparr>sessions_open := sessions_open s - {c}\<rparr>)"
| close_conn: "worker s c = W_closing_conn \<Longrightarrow>
     server_step s ((goto c W_removing s)\<lparr>conns_open := conns_open s - {c}\<rparr>)"
| remove: "worker s c = W_removing \<Longrightarrow>
     server_step s ((goto c W_none s)\<lparr>clients := clients s - {c}\<rparr>)"
| shut_down: "\<not> closing s \<Longrightarrow> server_step s (closeConnections s)"

text \<open>
  What others do: a client connects, \<open>Accept\<close> fails for a reason of its own, a request
  arrives, the agent replies or fails (which closes the session), a custom handler returns,
  the client takes the reply, or stops: it leaves, is too slow, or sends no valid frame.
\<close>

inductive server_env :: "server \<Rightarrow> server \<Rightarrow> bool" where
  connects: "proxy s = P_accepting \<Longrightarrow> listener_open s \<Longrightarrow>
     server_env s (s\<lparr>proxy := P_deciding (accepted s), conns_open := insert (accepted s) (conns_open s),
       accepted := Suc (accepted s)\<rparr>)"
| accept_error: "proxy s = P_accepting \<Longrightarrow> server_env s (s\<lparr>proxy := P_stopped\<rparr>)"
| request_arrives: "worker s c = W_reading \<Longrightarrow> c \<in> conns_open s \<Longrightarrow> server_env s (goto c W_querying s)"
| agent_replies: "worker s c = W_querying \<Longrightarrow> server_env s (goto c W_writing s)"
| agent_fails: "worker s c = W_querying \<Longrightarrow>
     server_env s ((goto c W_writing s)\<lparr>sessions_open := sessions_open s - {c}\<rparr>)"
| reply_taken: "worker s c = W_writing \<Longrightarrow> c \<in> conns_open s \<Longrightarrow> server_env s (goto c W_reading s)"
| client_stops: "worker s c \<in> {W_reading, W_writing} \<Longrightarrow> server_env s (goto c W_unregistering s)"
| custom_request: "worker s c = C_reading \<Longrightarrow> c \<in> conns_open s \<Longrightarrow> server_env s (goto c C_handling s)"
| custom_returns: "worker s c = C_handling \<Longrightarrow> server_env s (goto c C_writing s)"
| custom_taken: "worker s c = C_writing \<Longrightarrow> c \<in> conns_open s \<Longrightarrow> server_env s (goto c C_reading s)"
| custom_stops: "worker s c \<in> {C_reading, C_writing} \<Longrightarrow> server_env s (goto c W_closing_conn s)"

definition server_any :: "server \<Rightarrow> server \<Rightarrow> bool" where
  "server_any s t \<longleftrightarrow> server_step s t \<or> server_env s t"

inductive_cases server_stepE: "server_step s t"
inductive_cases server_envE: "server_env s t"

section \<open>The invariant\<close>

definition server_inv :: "server \<Rightarrow> bool" where
  "server_inv s \<longleftrightarrow>
     finite (clients s) \<and> card (clients s) \<le> maxClients
     \<and> (\<forall>c. c \<in> clients s \<longleftrightarrow> worker s c \<noteq> W_none)
     \<and> (\<forall>c. c \<in> upstreams s \<longleftrightarrow> worker s c \<in> {W_reading, W_querying, W_writing, W_unregistering})
     \<and> (\<forall>c \<in> sessions_open s. worker s c
          \<in> {W_created, W_reading, W_querying, W_writing, W_unregistering, W_closing_session})
     \<and> (\<forall>c \<in> conns_open s. proxy s \<in> {P_deciding c, P_rejecting c}
          \<or> worker s c \<notin> {W_none, W_removing})
     \<and> (\<forall>c. proxy s \<in> {P_deciding c, P_rejecting c} \<longrightarrow> worker s c = W_none)
     \<and> (\<forall>c. worker s c \<noteq> W_none \<or> proxy s \<in> {P_deciding c, P_rejecting c} \<longrightarrow> c < accepted s)
     \<and> (closing s \<longrightarrow> \<not> listener_open s \<and> upstreams s \<inter> sessions_open s = {} \<and> clients s \<inter> conns_open s = {})"

lemma server_inv_step: "server_step s t \<Longrightarrow> server_inv s \<Longrightarrow> server_inv t"
proof (induction rule: server_step.induct)
  case (admit s c)
  then have "c \<notin> clients s" unfolding server_inv_def by auto
  with admit show ?case unfolding server_inv_def by (auto simp: goto_def)
next
  case (remove s c)
  then have "card (clients s - {c}) \<le> maxClients"
    unfolding server_inv_def by (meson card_Diff1_le order_trans)
  with remove show ?case unfolding server_inv_def by (auto simp: goto_def)
next
  case (shut_down s)
  then show ?case unfolding server_inv_def by (auto simp: closeConnections_def)
next
  case (new_session s c)
  then show ?case unfolding server_inv_def by (auto simp: goto_def)
next
  case (custom_handler s c)
  then show ?case unfolding server_inv_def by (auto simp: goto_def)
next
  case (give_up s c)
  then show ?case unfolding server_inv_def by (auto simp: goto_def)
next
  case (register s c)
  then show ?case unfolding server_inv_def by (auto simp: goto_def)
next
  case (loop_fails s c)
  then show ?case unfolding server_inv_def by (auto simp: goto_def)
next
  case (query_fails s c)
  then show ?case unfolding server_inv_def by (auto simp: goto_def)
next
  case (custom_fails s c)
  then show ?case unfolding server_inv_def by (auto simp: goto_def)
next
  case (unregister s c)
  then show ?case unfolding server_inv_def by (auto simp: goto_def)
next
  case (close_session s c)
  then show ?case unfolding server_inv_def by (auto simp: goto_def)
next
  case (close_conn s c)
  then show ?case unfolding server_inv_def by (auto simp: goto_def)
next
  case (accept_fails s)
  then show ?case unfolding server_inv_def by (auto)
next
  case (reject s c)
  then show ?case unfolding server_inv_def by (auto)
next
  case (reject_close s c)
  then show ?case unfolding server_inv_def by (auto)
qed

lemma server_inv_env: "server_env s t \<Longrightarrow> server_inv s \<Longrightarrow> server_inv t"
proof (induction rule: server_env.induct)
  case (connects s)
  then show ?case unfolding server_inv_def by (fastforce simp: goto_def)
next
  case (request_arrives s c)
  then show ?case unfolding server_inv_def by (auto simp: goto_def)
next
  case (agent_replies s c)
  then show ?case unfolding server_inv_def by (auto simp: goto_def)
next
  case (agent_fails s c)
  then show ?case unfolding server_inv_def by (auto simp: goto_def)
next
  case (reply_taken s c)
  then show ?case unfolding server_inv_def by (auto simp: goto_def)
next
  case (client_stops s c)
  then show ?case unfolding server_inv_def by (auto simp: goto_def)
next
  case (custom_request s c)
  then show ?case unfolding server_inv_def by (auto simp: goto_def)
next
  case (custom_returns s c)
  then show ?case unfolding server_inv_def by (auto simp: goto_def)
next
  case (custom_taken s c)
  then show ?case unfolding server_inv_def by (auto simp: goto_def)
next
  case (custom_stops s c)
  then show ?case unfolding server_inv_def by (auto simp: goto_def)
next
  case (accept_error s)
  then show ?case unfolding server_inv_def by (auto)
qed

section \<open>Shutdown\<close>

fun proxy_rank :: "proxy_pc \<Rightarrow> nat" where
  "proxy_rank (P_deciding c) = 3"
| "proxy_rank (P_rejecting c) = 2"
| "proxy_rank P_accepting = 1"
| "proxy_rank P_stopped = 0"

fun worker_rank :: "worker_pc \<Rightarrow> nat" where
  "worker_rank W_none = 0"
| "worker_rank W_starting = 9"
| "worker_rank W_created = 8"
| "worker_rank W_querying = 7"
| "worker_rank W_writing = 6"
| "worker_rank W_reading = 5"
| "worker_rank C_handling = 5"
| "worker_rank C_writing = 4"
| "worker_rank C_reading = 3"
| "worker_rank W_unregistering = 4"
| "worker_rank W_closing_session = 3"
| "worker_rank W_closing_conn = 2"
| "worker_rank W_removing = 1"

text \<open>The steps left until everything has stopped, once the program is closing.\<close>

definition steps_left :: "server \<Rightarrow> nat" where
  "steps_left s = proxy_rank (proxy s) + (\<Sum>c \<in> clients s. worker_rank (worker s c))"

lemma steps_left_bound: "server_inv s \<Longrightarrow> steps_left s \<le> 3 + 9 * maxClients"
proof -
  assume inv: "server_inv s"
  have "worker_rank pc \<le> 9" for pc by (cases pc) simp_all
  then have "(\<Sum>c \<in> clients s. worker_rank (worker s c)) \<le> 9 * card (clients s)"
    using sum_bounded_above [of "clients s" "\<lambda>c. worker_rank (worker s c)" 9] by simp
  moreover have "proxy_rank (proxy s) \<le> 3" by (cases "proxy s") simp_all
  ultimately show ?thesis using inv unfolding steps_left_def server_inv_def by linarith
qed

lemma goto_rank:
  assumes "server_inv s" "worker s c \<noteq> W_none" "worker_rank pc < worker_rank (worker s c)"
  shows "(\<Sum>k \<in> clients s. worker_rank (((worker s)(c := pc)) k)) < (\<Sum>k \<in> clients s. worker_rank (worker s k))"
proof (rule sum_strict_mono_ex1)
  show "finite (clients s)" using assms(1) by (simp add: server_inv_def)
  show "\<exists>k \<in> clients s. worker_rank (((worker s)(c := pc)) k) < worker_rank (worker s k)"
    using assms by (intro bexI [of _ c]) (auto simp: server_inv_def)
qed (use assms(3) in auto)

lemma steps_left_program:
  assumes "server_step s t" "server_inv s" "closing s"
  shows "steps_left t < steps_left s"
  using assms
proof (induction rule: server_step.induct)
  case (remove s c)
  then have fin: "finite (clients s)" and c: "c \<in> clients s" by (auto simp: server_inv_def)
  have "(\<Sum>k \<in> clients s - {c}. worker_rank (((worker s)(c := W_none)) k))
      = (\<Sum>k \<in> clients s - {c}. worker_rank (worker s k))"
    by (rule sum.cong) auto
  with sum.remove [OF fin c, of "\<lambda>k. worker_rank (worker s k)"] remove
  show ?case by (simp add: steps_left_def goto_def)
next
  case (new_session s c)
  then show ?case using goto_rank [of s c W_created] by (auto simp: steps_left_def goto_def)
next
  case (custom_handler s c)
  then show ?case using goto_rank [of s c C_reading] by (auto simp: steps_left_def goto_def)
next
  case (give_up s c)
  then show ?case using goto_rank [of s c W_closing_session] by (auto simp: steps_left_def goto_def)
next
  case (loop_fails s c)
  then show ?case using goto_rank [of s c W_unregistering] by (auto simp: steps_left_def goto_def)
next
  case (query_fails s c)
  then show ?case using goto_rank [of s c W_writing] by (auto simp: steps_left_def goto_def)
next
  case (custom_fails s c)
  then show ?case using goto_rank [of s c W_closing_conn] by (auto simp: steps_left_def goto_def)
next
  case (unregister s c)
  then show ?case using goto_rank [of s c W_closing_session] by (auto simp: steps_left_def goto_def)
next
  case (close_session s c)
  then show ?case using goto_rank [of s c W_closing_conn] by (auto simp: steps_left_def goto_def)
next
  case (close_conn s c)
  then show ?case using goto_rank [of s c W_removing] by (auto simp: steps_left_def goto_def)
qed (simp_all add: steps_left_def)

text \<open>Others cannot delay it either: the listener and every connection are closed.\<close>

lemma steps_left_env:
  assumes "server_env s t" "server_inv s" "closing s"
  shows "steps_left t < steps_left s"
  using assms
proof (induction rule: server_env.induct)
  case (agent_replies s c)
  then show ?case using goto_rank [of s c W_writing] by (auto simp: steps_left_def goto_def)
next
  case (agent_fails s c)
  then show ?case using goto_rank [of s c W_writing] by (auto simp: steps_left_def goto_def)
next
  case (client_stops s c)
  then show ?case using goto_rank [of s c W_unregistering] by (auto simp: steps_left_def goto_def)
next
  case (custom_returns s c)
  then show ?case using goto_rank [of s c C_writing] by (auto simp: steps_left_def goto_def)
next
  case (custom_stops s c)
  then show ?case using goto_rank [of s c W_closing_conn] by (auto simp: steps_left_def goto_def)
next
  case (request_arrives s c)
  then have "c \<notin> conns_open s" by (auto simp: server_inv_def)
  with request_arrives show ?case by simp
next
  case (reply_taken s c)
  then have "c \<notin> conns_open s" by (auto simp: server_inv_def)
  with reply_taken show ?case by simp
next
  case (custom_request s c)
  then have "c \<notin> conns_open s" by (auto simp: server_inv_def)
  with custom_request show ?case by simp
next
  case (custom_taken s c)
  then have "c \<notin> conns_open s" by (auto simp: server_inv_def)
  with custom_taken show ?case by simp
qed (simp_all add: steps_left_def server_inv_def)

lemma closing_stays: "server_any s t \<Longrightarrow> closing s \<Longrightarrow> closing t"
  unfolding server_any_def
  by (elim disjE server_stepE server_envE) (simp_all add: goto_def closeConnections_def)

interpretation pipe_server: ranked_phase init_server server_any server_inv closing steps_left
proof unfold_locales
  show "server_inv s" if "init_server s" for s
    using that by (simp add: init_server_def server_inv_def maxClients_def)
qed (auto simp: server_any_def intro: server_inv_step server_inv_env closing_stays [unfolded server_any_def]
  steps_left_program steps_left_env)

text \<open>The program by itself, with nobody else moving.\<close>

interpretation lone_server: ranked_phase init_server server_step server_inv closing steps_left
  by unfold_locales
    (auto simp: server_any_def intro: pipe_server.inv_init server_inv_step closing_stays steps_left_program)

lemma lone_runs: "server_step\<^sup>*\<^sup>* s t \<Longrightarrow> server_any\<^sup>*\<^sup>* s t"
  by (induction rule: rtranclp_induct) (auto simp: server_any_def intro: rtranclp.rtrancl_into_rtrancl)

text \<open>
  Everything is released but the entries of clients whose custom handler is still running:
  no connection, no session and no listener is open, and the accepting loop has ended.
\<close>

definition all_released :: "server \<Rightarrow> bool" where
  "all_released s \<longleftrightarrow> clients s = {c. worker s c = C_handling} \<and> upstreams s = {} \<and> conns_open s = {}
     \<and> sessions_open s = {} \<and> \<not> listener_open s \<and> proxy s = P_stopped"

lemma worker_can_step:
  assumes "server_inv s" "closing s" "worker s c \<notin> {W_none, C_handling}"
  shows "\<exists>t. server_step s t"
proof -
  have "c \<notin> conns_open s"
    using assms unfolding server_inv_def by blast
  moreover have "c \<notin> sessions_open s" if "worker s c = W_querying"
    using assms that unfolding server_inv_def by blast
  ultimately show ?thesis using assms(2,3)
    by (cases "worker s c")
      (blast intro: new_session give_up loop_fails query_fails custom_fails unregister close_session
        close_conn remove)+
qed

lemma proxy_can_step: "server_inv s \<Longrightarrow> closing s \<Longrightarrow> proxy s \<noteq> P_stopped \<Longrightarrow> \<exists>t. server_step s t"
proof (cases "proxy s")
  case P_accepting
  moreover assume "server_inv s" "closing s"
  then have "\<not> listener_open s" by (simp add: server_inv_def)
  ultimately show ?thesis using accept_fails by blast
qed (use reject reject_close in blast)+

lemma end_is_released:
  assumes "server_inv s" "closing s" "\<nexists>t. server_step s t"
  shows "all_released s"
proof -
  have w: "worker s c \<in> {W_none, C_handling}" for c using worker_can_step assms by blast
  have p: "proxy s = P_stopped" using proxy_can_step assms by blast
  have l: "\<not> listener_open s" and cl: "clients s = {c. worker s c \<noteq> W_none}"
    and closed: "clients s \<inter> conns_open s = {}"
    using assms(1,2) by (auto simp: server_inv_def)
  have held: "\<And>c. c \<in> conns_open s \<Longrightarrow> proxy s \<in> {P_deciding c, P_rejecting c} \<or> worker s c \<notin> {W_none, W_removing}"
    and sess: "\<And>c. c \<in> sessions_open s \<Longrightarrow> worker s c
      \<in> {W_created, W_reading, W_querying, W_writing, W_unregistering, W_closing_session}"
    and up: "\<And>c. c \<in> upstreams s \<Longrightarrow> worker s c \<in> {W_reading, W_querying, W_writing, W_unregistering}"
    using assms(1) unfolding server_inv_def by blast+
  have "c \<notin> conns_open s" for c using held [of c] p cl closed by auto
  moreover have "c \<notin> sessions_open s" "c \<notin> upstreams s" for c using sess [of c] up [of c] w [of c] by auto
  moreover have "worker s c \<noteq> W_none \<longleftrightarrow> worker s c = C_handling" for c using w [of c] by auto
  ultimately show ?thesis using p l cl unfolding all_released_def by auto
qed

text \<open>When nothing can move any more, no handler is running either.\<close>

lemma end_of_all:
  assumes "server_inv s" "closing s" "\<nexists>t. server_any s t"
  shows "all_released s \<and> clients s = {}"
proof -
  have r: "all_released s" using end_is_released assms by (auto simp: server_any_def)
  moreover have "worker s c \<noteq> C_handling" for c using custom_returns assms(3) by (auto simp: server_any_def)
  ultimately show ?thesis by (simp add: all_released_def)
qed

end
