(* ===== verification/PropsBridge.thy ===== *)
theory PropsBridge
  imports PropsClient PipeServer CopyData Clients
begin

text \<open>
  The properties of the two transports (\<^verbatim>\<open>pageant/run_windows.go\<close>): the query between
  client and agent, the named pipe, the shared-memory message and the server's tables.
\<close>

section \<open>Examples used by the witnesses\<close>

definition failing_handler :: "(unit, unit) request_handler" where
  "failing_handler request s = ((agentFailure, None), s)"

definition example_bridge :: "unit bridge" where
  "example_bridge = \<lparr>br_handler = (), br_handles = [], br_notices = []\<rparr>"

text \<open>A client that sends one request in three pieces and reads the reply in one.\<close>

definition chunked_client :: conn where
  "chunked_client = \<lparr>rd_script = [([0], None), ([0, 0], None), ([1, 11], None)],
     wr_script = [(5, None)], rd_deadlines = [], wr_deadlines = [], sent = []\<rparr>"

lemma identities_request_valid: "ValidateRequest [0, 0, 0, 1, 11] = None"
  by (simp add: ValidateRequest_def validateFrame_def AgentMaxMessageLength_def)

section \<open>The query\<close>

text \<open>
  C2: the reply a client gets is the handler's own reply when the request is a valid frame
  and the handler returned a valid frame without an error, and the failure frame in every
  other case; it is always a valid frame, and no handle stays open.
\<close>

theorem query_reply:
  "fst (queryUsing os d handler client request b) =
    (if ValidateRequest request = None \<and> snd (fst (handler request (br_handler b))) = None
        \<and> ValidateResponse (fst (fst (handler request (br_handler b)))) = None
     then fst (fst (handler request (br_handler b))) else agentFailure)
   \<and> ValidateResponse (fst (queryUsing os d handler client request b)) = None
   \<and> br_handles (snd (queryUsing os d handler client request b)) = br_handles b"
  by (intro conjI queryUsing_reply queryUsing_valid queryUsing_handles)

text \<open>
  C27: a well-formed signing request raises exactly one notice, and its title says that the
  key was used exactly when the reply sent to the client is a signature.
\<close>

theorem signing_raises_one_notice:
  assumes "ValidateRequest request = None" "ParseSignRequest request = Some sign"
  shows "\<exists>title body. br_notices (snd (queryUsing os True handler client request b))
      = br_notices b @ [(title, body)]
    \<and> (title = lit ''SSH key used'' \<longleftrightarrow> fst (queryUsing os True handler client request b) ! 4 = 14)"
  using queryUsing_notice_title [OF assms] .

lemma generic_request_signs:
  "ValidateRequest generic_request = None \<and> ParseSignRequest generic_request \<noteq> None"
proof -
  let ?blob = "put_string (lit ''ssh-rsa'') @ [1]"
  let ?sign = "\<lparr>sign_key_type = lit ''ssh-rsa'', sign_fingerprint = fingerprint ?blob, sign_username = []\<rparr>"
  have type: "publicKeyType ?blob = Some (lit ''ssh-rsa'')"
    unfolding publicKeyType_iff by (rule exI [of _ "[1]"]) (simp add: lit_def)
  have "ParseSignRequest generic_request = Some ?sign"
    unfolding ParseSignRequest_spec generic_request_def
    by (intro exI [of _ ?blob] exI [of _ "[7]"] exI [of _ "[0, 0, 0, 0]"])
      (simp add: type userauthUsername_def takeString_def sign_payload_def)
  then show ?thesis by (auto simp: ParseSignRequest_def split: if_splits)
qed

theorem signing_raises_one_notice_witness:
  "\<exists>title body. br_notices (snd (queryUsing example_os True failing_handler example_client generic_request example_bridge))
      = br_notices example_bridge @ [(title, body)]
    \<and> (title = lit ''SSH key used'' \<longleftrightarrow>
        fst (queryUsing example_os True failing_handler example_client generic_request example_bridge) ! 4 = 14)"
proof -
  obtain sign where "ParseSignRequest generic_request = Some sign" using generic_request_signs by auto
  with generic_request_signs show ?thesis by (intro signing_raises_one_notice) auto
qed

section \<open>The named pipe\<close>

text \<open>
  C3: on any connection, whatever the client sends and however reads and writes are cut or
  fail, the requests served are the first complete valid frames of its bytes, in order;
  what the client receives is a prefix of the replies to them, in the same order, each a
  valid reply frame; and no handle stays open.
\<close>

theorem pipe_serves_in_order:
  "case serve_client os d handler fd c b of (e, c', b') \<Rightarrow>
     let ask = queryUsing os d handler (fst (clientFromPipe os fd (br_handles b))) in
     \<exists>served. prefix served (requests_of (stream c))
       \<and> list_all (\<lambda>r. ValidateRequest r = None) served
       \<and> list_all (\<lambda>r. ValidateResponse r = None) (fst (run_queries ask served b))
       \<and> (\<exists>k. sent c' = sent c @ take k (concat (fst (run_queries ask served b))))
       \<and> b' = snd (run_queries ask served b) \<and> br_handles b' = br_handles b"
proof -
  obtain e c' b' where run: "serve_client os d handler fd c b = (e, c', b')" by (metis prod.exhaust)
  let ?ask = "queryUsing os d handler (fst (clientFromPipe os fd (br_handles b)))"
  from serve_client_explained [OF run] obtain served where
    ex: "explained ?ask c b c' b' served" by blast
  then have served: "prefix served (requests_of (stream c))" by (simp add: explained_def)
  have "list_all (\<lambda>r. ValidateRequest r = None) served"
    using served requests_of_prefix [of "stream c"] by (auto simp: prefix_def list_all_iff)
  with ex served serve_client_handles [OF run] query_service.replies_valid [of os d handler _ served b]
  show ?thesis
    unfolding run explained_def Let_def prod.case by (intro exI [of _ served]) simp
qed

text \<open>
  C4: a client whose complete requests arrive on a connection that does not fail, in pieces
  of any size, and that takes each reply, receives the reply to every one of them, in
  order; the bytes after them are left for the next turn of the loop.
\<close>

theorem pipe_answers_every_request:
  assumes "clean_reads c" "deadlines_work c" "stream c = concat requests @ rest"
    and "list_all (\<lambda>r. ValidateRequest r = None) requests"
    and "wr_script c = map (\<lambda>r. (int (length r), None))
      (fst (run_queries (queryUsing os d handler client) requests b)) @ script"
  shows "\<exists>c'. pipe_loop (queryUsing os d handler client) c b
      = pipe_loop (queryUsing os d handler client) c' (snd (run_queries (queryUsing os d handler client) requests b))
    \<and> sent c' = sent c @ concat (fst (run_queries (queryUsing os d handler client) requests b))
    \<and> stream c' = rest"
  using query_service.pipe_loop_served [OF assms] by blast

theorem pipe_answers_every_request_witness:
  "\<exists>c'. pipe_loop (queryUsing example_os False failing_handler no_client) chunked_client example_bridge
      = pipe_loop (queryUsing example_os False failing_handler no_client) c'
          (snd (run_queries (queryUsing example_os False failing_handler no_client) [[0, 0, 0, 1, 11]] example_bridge))
    \<and> sent c' = sent chunked_client
        @ concat (fst (run_queries (queryUsing example_os False failing_handler no_client) [[0, 0, 0, 1, 11]] example_bridge))
    \<and> stream c' = []"
proof -
  have q: "queryUsing example_os False failing_handler no_client [0, 0, 0, 1, 11] example_bridge
      = (agentFailure, example_bridge)"
    by (simp add: queryUsing_def identities_request_valid failing_handler_def agentFailure_generic Let_def)
  show ?thesis
    by (rule pipe_answers_every_request [where script = "[]"])
      (simp_all add: chunked_client_def clean_reads_def deadlines_work_def stream_def
        identities_request_valid run_queries_Cons q, simp add: agentFailure_def)
qed

text \<open>
  The built-in handler's session ends with its client: whatever happened on the
  connection, it is closed when \<open>pipeListen\<close> returns, and while the program is closing
  nothing is read from the client or sent to it.
\<close>

lemma pipe_session_ends_closed:
  "session_closed (br_handler (snd (snd (pipeListen_default os d dial pipeName shutting fd c b))))
   \<and> fst (snd (pipeListen_default os d dial pipeName True fd c b)) = c"
  by (simp add: pipeListen_default_closes) (simp add: pipeListen_default_def)

section \<open>The shared-memory message\<close>

text \<open>
  C5: a served \<open>WM_COPYDATA\<close> request came from a mapping owned by the user of this process,
  and left at the start of the mapping a valid reply frame that fits it and the protocol's
  buffer; every byte after the reply is as the client left it, even when the client changes
  the mapping while it is served.
\<close>

theorem copydata_reply:
  assumes "fst (handleCopyData os d handler lp m)" and "keeps_size os"
  shows "own_mapping os lp \<and>
    (\<exists>reply. ValidateResponse reply = None
      \<and> length reply \<le> min (length (shared_bytes m)) AgentMaxMessageLength
      \<and> shared_bytes (snd (handleCopyData os d handler lp m)) = reply @ drop (length reply)
          (os_meddle_serve os (os_meddle_read os (shared_bytes m))))"
  using handleCopyData_served [OF assms] .

definition example_copydata :: copydata_os where
  "example_copydata = client_os.extend example_os
     \<lparr>os_memory = (\<lambda>a. if a = 17 then 0 else 65),
      os_message = (\<lambda>_. \<lparr>dwData = 0x804e50ba, cbData = 2, lpData = 16\<rparr>),
      os_open_mapping = (\<lambda>_. Some 5), os_map_view = (\<lambda>_. Some 6), os_virtual_query = (\<lambda>_. True),
      os_meddle_read = (\<lambda>bs. bs), os_meddle_serve = (\<lambda>bs. bs)\<rparr>
     \<lparr>os_security_info := (\<lambda>_. Some (Some (Some [1, 5])))\<rparr>"

definition example_mapping :: "unit mapping_state" where
  "example_mapping = \<lparr>br_handler = (), br_handles = [], br_notices = [], open_views = [],
     shared_bytes = [0, 0, 0, 1, 11, 9, 9]\<rparr>"

lemma example_copydata_served:
  "fst (handleCopyData example_copydata False failing_handler 1 example_mapping)"
proof -
  have name: "copyDataName (os_memory example_copydata) (os_message example_copydata 1) = Some [65, 0]"
    by (simp add: copyDataName_def example_copydata_def client_os.defs agentCopyDataID_def upt_rec)
  have os: "GetUserSID example_copydata = Inr [1, 5]" "GetHandleSID example_copydata 5 = Inr [1, 5]"
    "os_open_mapping example_copydata [65, 0] = Some 5" "os_map_view example_copydata 5 = Some 6"
    "os_virtual_query example_copydata 6"
    by (simp_all add: example_copydata_def client_os.defs example_os_def GetUserSID_def GetHandleSID_def
        copyValidSID_def)
  have "fst (serve_view example_copydata False failing_handler name 6 m)"
    if "shared_bytes m = [0, 0, 0, 1, 11, 9, 9]" for name and m :: "unit mapping_state"
    using that os(5) by (simp add: serve_view_def AgentMaxMessageLength_def Let_def split_def)
  then show ?thesis
    by (simp add: handleCopyData_def name os Let_def split_def example_mapping_def)
qed

theorem copydata_reply_witness:
  "own_mapping example_copydata 1 \<and>
    (\<exists>reply. ValidateResponse reply = None
      \<and> length reply \<le> min (length (shared_bytes example_mapping)) AgentMaxMessageLength
      \<and> shared_bytes (snd (handleCopyData example_copydata False failing_handler 1 example_mapping))
        = reply @ drop (length reply) (shared_bytes example_mapping))"
proof -
  have os: "keeps_size example_copydata" "os_meddle_serve example_copydata = (\<lambda>bs. bs)"
    "os_meddle_read example_copydata = (\<lambda>bs. bs)"
    by (simp_all add: keeps_size_def example_copydata_def client_os.defs)
  from copydata_reply [OF example_copydata_served os(1)] show ?thesis unfolding os(2,3) .
qed

text \<open>
  C22: a refused message changes nothing at all, and in every case each handle and view
  that was opened is closed again.
\<close>

theorem copydata_releases:
  "br_handles (snd (handleCopyData os d handler lp m)) = br_handles m
   \<and> open_views (snd (handleCopyData os d handler lp m)) = open_views m
   \<and> (\<not> fst (handleCopyData os d handler lp m) \<longrightarrow> snd (handleCopyData os d handler lp m) = m)"
  using handleCopyData_no_leak [of os d handler lp m] handleCopyData_refused [of os d handler lp m] by blast

theorem copydata_releases_witness:
  "snd (handleCopyData example_copydata False failing_handler 0 example_mapping) = example_mapping"
proof -
  have "\<not> fst (handleCopyData example_copydata False failing_handler 0 example_mapping)"
    by (simp add: handleCopyData_def)
  with copydata_releases [of example_copydata False failing_handler 0 example_mapping] show ?thesis by blast
qed

text \<open>
  The request handler runs at most once for a message, only on a valid request, and
  never for a mapping of another user, even when the client rewrites the request after its
  length was checked.
\<close>

lemma copydata_handler_guarded:
  "br_handler (snd (handleCopyData os d handler lp m)) = br_handler m
   \<or> (own_mapping os lp \<and> (\<exists>request. ValidateRequest request = None
       \<and> br_handler (snd (handleCopyData os d handler lp m)) = snd (handler request (br_handler m))))"
  by (rule handleCopyData_handler)

section \<open>The server's tables\<close>

text \<open>
  C16: in every reachable state of the pipe server, whatever its clients, the agent and
  custom handlers do, at most 32 clients are registered; a client is registered exactly
  while its worker runs; and once the program is closing, the listener is closed, and no
  registered client's connection and no registered upstream session is open.
\<close>

theorem server_tables:
  assumes "reach init_server server_any s"
  shows "card (clients s) \<le> 32 \<and> (\<forall>c. c \<in> clients s \<longleftrightarrow> worker s c \<noteq> W_none)
    \<and> (closing s \<longrightarrow> \<not> listener_open s \<and> clients s \<inter> conns_open s = {} \<and> upstreams s \<inter> sessions_open s = {})"
  using pipe_server.reach_inv [OF assms] by (simp add: server_inv_def maxClients_def Int_commute)

text \<open>A server with one client whose request is with the agent, at the moment of shutdown.\<close>

definition example_server :: server where
  "example_server = \<lparr>closing = False, listener_open = True, clients = {0}, upstreams = {0},
     proxy = P_accepting, worker = (\<lambda>_. W_none)(0 := W_querying), conns_open = {0}, sessions_open = {0},
     accepted = 1\<rparr>"

lemma example_server_reach: "reach init_server server_any (closeConnections example_server)"
proof -
  define s0 where "s0 = \<lparr>closing = False, listener_open = True, clients = {}, upstreams = {},
     proxy = P_accepting, worker = (\<lambda>_. W_none), conns_open = {}, sessions_open = {}, accepted = 0\<rparr>"
  define s1 where "s1 = s0\<lparr>proxy := P_deciding 0, conns_open := {0}, accepted := 1\<rparr>"
  define s2 where "s2 = (goto 0 W_starting s1)\<lparr>proxy := P_accepting, clients := {0}\<rparr>"
  define s3 where "s3 = (goto 0 W_created s2)\<lparr>sessions_open := {0}\<rparr>"
  define s4 where "s4 = (goto 0 W_reading s3)\<lparr>upstreams := {0}\<rparr>"
  note s = s0_def s1_def s2_def s3_def s4_def goto_def
  note any = server_any_def
  have "reach init_server server_any s0" by (rule reach_init) (simp add: init_server_def s0_def)
  moreover have "server_any s0 s1" using connects [of s0] by (simp add: any s)
  ultimately have "reach init_server server_any s1" by (rule reach_step)
  moreover have "server_any s1 s2" using admit [of s1 0] by (simp add: any s maxClients_def)
  ultimately have "reach init_server server_any s2" by (rule reach_step)
  moreover have "server_any s2 s3" using new_session [of s2 0] by (simp add: any s)
  ultimately have "reach init_server server_any s3" by (rule reach_step)
  moreover have "server_any s3 s4" using register [of s3 0] by (simp add: any s)
  ultimately have "reach init_server server_any s4" by (rule reach_step)
  moreover have "server_any s4 example_server"
    using request_arrives [of s4 0] by (simp add: any s example_server_def)
  ultimately have "reach init_server server_any example_server" by (rule reach_step)
  moreover have "server_any example_server (closeConnections example_server)"
    using shut_down [of example_server] by (simp add: any example_server_def)
  ultimately show ?thesis by (rule reach_step)
qed

theorem server_tables_witness:
  "card (clients (closeConnections example_server)) \<le> 32
   \<and> clients (closeConnections example_server) \<inter> conns_open (closeConnections example_server) = {}
   \<and> 0 \<in> clients (closeConnections example_server)"
proof -
  have "closing (closeConnections example_server)" "worker (closeConnections example_server) 0 \<noteq> W_none"
    by (simp_all add: closeConnections_def example_server_def)
  with server_tables [OF example_server_reach] show ?thesis by blast
qed

text \<open>
  C17: shutdown completes, and it is the program that completes it. From any reachable
  state that is closing, every run of the program and of everyone else has at most 291 more
  steps. The program does not wait for clients or the agent: in every state from which it
  has no further step of its own, the listener and all connections and sessions are closed,
  the accepting loop has ended, and only clients inside a custom handler are still
  registered; by its own steps it gets to such a state; and when the handlers have returned
  too, no client is left.
\<close>

theorem shutdown_completes:
  assumes "reach init_server server_any s" "closing s"
  shows "(\<forall>n t. (server_any ^^ n) s t \<longrightarrow> n \<le> 291)
    \<and> (\<forall>t. server_any\<^sup>*\<^sup>* s t \<longrightarrow> (\<nexists>u. server_step t u) \<longrightarrow> all_released t)
    \<and> (\<exists>t. server_step\<^sup>*\<^sup>* s t \<and> all_released t)
    \<and> (\<exists>t. server_any\<^sup>*\<^sup>* s t \<and> all_released t \<and> clients t = {})"
proof -
  have inv: "server_inv s" using pipe_server.reach_inv [OF assms(1)] .
  have bound: "n \<le> 291" if "(server_any ^^ n) s t" for n t
    using pipe_server.run_bounded [OF that inv assms(2)] steps_left_bound [OF inv] by (simp add: maxClients_def)
  have later: "server_inv t \<and> closing t" if "server_any\<^sup>*\<^sup>* s t" for t
    using pipe_server.steps_inv [OF that inv] pipe_server.flag_steps [OF that assms(2)] by simp
  have stuck: "all_released t" if "server_any\<^sup>*\<^sup>* s t" "\<nexists>u. server_step t u" for t
    using later end_is_released that by blast
  obtain t1 where t1: "server_step\<^sup>*\<^sup>* s t1" "\<nexists>u. server_step t1 u"
    using lone_server.reaches_end [OF inv assms(2)] by blast
  obtain t2 where t2: "server_any\<^sup>*\<^sup>* s t2" "\<nexists>u. server_any t2 u"
    using pipe_server.reaches_end [OF inv assms(2)] by blast
  have "all_released t1" using stuck [OF lone_runs [OF t1(1)] t1(2)] .
  moreover have "all_released t2 \<and> clients t2 = {}" using end_of_all later t2 by blast
  ultimately show ?thesis using bound stuck t1(1) t2(1) by blast
qed

theorem shutdown_completes_witness:
  "\<exists>t. server_step\<^sup>*\<^sup>* (closeConnections example_server) t \<and> all_released t"
proof -
  have "closing (closeConnections example_server)" by (simp add: closeConnections_def)
  from shutdown_completes [OF example_server_reach this] show ?thesis by blast
qed

end
