(* ===== verification/KeyWindow.thy ===== *)
theory KeyWindow
  imports Session Security "HOL-Library.Signed_Division"
begin

text \<open>
  The window that lists the public keys (\<^verbatim>\<open>pageant/desktop_windows.go\<close>): the desktop's
  state, the geometry at the monitor's DPI, \<open>showKeys\<close>, \<open>refreshKeys\<close>, \<open>displayKeys\<close> and
  the window procedure \<open>keysWndProc\<close>. The calls into Windows that change what the user sees are
  recorded in order; what Windows answers is a record of values.
\<close>

section \<open>Text for native controls\<close>

text \<open>
  \<open>uiString\<close>: the cleaned text in UTF-16 with its terminator; \<open>None\<close> is the nil pointer
  that \<open>UTF16PtrFromString\<close> returns for text with a NUL inside.
\<close>

definition UTF16PtrFromString :: "gostr \<Rightarrow> u16 list option" where
  "UTF16PtrFromString v = (if 0 \<in> set v then None else Some (utf16_encode (runes_of v) @ [0]))"

definition uiString :: "gostr \<Rightarrow> u16 list option" where
  "uiString value = UTF16PtrFromString (cleanUIText value)"

lemma uiString_Some: "uiString v = Some (utf16_encode (runes_of (cleanUIText v)) @ [0])"
  using ui.clean_no_NUL [of v] by (simp add: uiString_def UTF16PtrFromString_def)

definition ellipsis :: gostr where "ellipsis = [0xE2, 0x80, 0xA6]"
definition em_dash :: gostr where "em_dash = [0xE2, 0x80, 0x94]"

section \<open>State\<close>

type_synonym hwnd = nat
type_synonym i32 = "32 word"

text \<open>The calls that show: the list view's, the other controls', the tray's, the menu's.\<close>

datatype ui_call =
    Set_window_text hwnd "u16 list option"
  | Enable_window hwnd bool
  | List_delete_all hwnd
  | List_insert_item hwnd nat "u16 list option"
  | List_set_item hwnd nat nat "u16 list option"
  | List_insert_column hwnd nat "u16 list option" i32
  | List_style hwnd
  | Set_redraw hwnd bool
  | Move_window hwnd i32 i32 i32 i32
  | Set_window_pos hwnd i32 i32 i32 i32
  | Set_font hwnd nat
  | Delete_font nat
  | Show_window hwnd nat
  | Set_foreground hwnd
  | Set_focus hwnd
  | Destroy_window hwnd
  | Unregister_keys_class
  | Destroy_icon nat
  | Set_timer
  | Kill_timer
  | Tray_add "u16 list"
  | Tray_set_version
  | Tray_delete
  | Tray_notice "u16 list" "u16 list"
  | Tray_set_focus
  | Menu_append nat nat "u16 list option"
  | Menu_track i32 i32
  | Menu_destroy
  | Create_key_window "u16 list option" i32 i32
  | Create_control "u16 list option" "u16 list option" u32 nat
  | Log "gostr"

record key_result =
  result_keys :: "Key list"
  result_err :: "list_error option"

record desktop =
  d_hwnd :: hwnd
  d_pipe :: gostr
  d_closed :: bool
  d_notices :: "(gostr \<times> gostr) list"
  d_keysReady :: "key_result list"
  d_icon :: nat
  d_largeIcon :: nat
  d_ownedIcon :: nat
  d_ownedLarge :: nat
  d_trayAdded :: bool
  d_trayVersion4 :: bool
  d_taskbarReady :: u32
  d_notesEnabled :: bool
  d_keyWindow :: hwnd
  d_keyList :: hwnd
  d_keyStatus :: hwnd
  d_refreshButton :: hwnd
  d_closeButton :: hwnd
  d_font :: nat
  d_dpi :: u32
  d_loadingKeys :: bool
  d_keyClass :: bool
  d_loaders :: nat          \<comment> \<open>goroutines of \<open>refreshKeys\<close> before their look at \<open>closed\<close>\<close>
  d_sending :: "key_result list" \<comment> \<open>results of goroutines past that look, not yet sent\<close>
  d_readying :: nat         \<comment> \<open>goroutines that have sent and not yet posted\<close>
  d_noticers :: "(gostr \<times> gostr) list" \<comment> \<open>calls of \<open>notify\<close> past their look at \<open>closed\<close>\<close>
  d_noticing :: nat         \<comment> \<open>calls of \<open>notify\<close> that have sent and not yet posted\<close>
  d_posted :: "u32 list"    \<comment> \<open>messages posted to \<open>hwnd\<close> and not yet dispatched\<close>
  d_calls :: "ui_call list" \<comment> \<open>calls made so far\<close>

record ui_os =
  ui_init_controls :: bool
  ui_register_class :: bool
  ui_create_key_window :: hwnd
  ui_create_control :: "gostr \<Rightarrow> gostr \<Rightarrow> hwnd"
  ui_dpi_for_window :: "nat option"
  ui_create_font :: nat
  ui_client_rect :: "i32 \<times> i32 \<times> i32 \<times> i32"
  ui_is_dialog :: bool
  ui_post_works :: bool
  ui_tray_add_works :: bool
  ui_tray_version_works :: bool

definition call :: "ui_call \<Rightarrow> desktop \<Rightarrow> desktop" where
  "call k d = d\<lparr>d_calls := d_calls d @ [k]\<rparr>"

definition post :: "ui_os \<Rightarrow> u32 \<Rightarrow> desktop \<Rightarrow> desktop" where
  "post os msg d = (if ui_post_works os then d\<lparr>d_posted := d_posted d @ [msg]\<rparr> else d)"

text \<open>What a call changes besides the record of calls: nothing.\<close>

definition same_desktop :: "desktop \<Rightarrow> desktop \<Rightarrow> bool" where
  "same_desktop d d' \<longleftrightarrow> d'\<lparr>d_calls := []\<rparr> = d\<lparr>d_calls := []\<rparr>"

lemma same_desktop_refl [simp]: "same_desktop d d"
  by (simp add: same_desktop_def)

lemma same_desktop_call [simp]: "same_desktop d (call k d') = same_desktop d d'"
  by (simp add: same_desktop_def call_def)

lemma call_sel [simp]:
  "d_hwnd (call k d) = d_hwnd d" "d_pipe (call k d) = d_pipe d" "d_closed (call k d) = d_closed d" "d_notices (call k d) = d_notices d"
  "d_keysReady (call k d) = d_keysReady d" "d_trayAdded (call k d) = d_trayAdded d"
  "d_keyWindow (call k d) = d_keyWindow d" "d_keyList (call k d) = d_keyList d"
  "d_keyStatus (call k d) = d_keyStatus d" "d_refreshButton (call k d) = d_refreshButton d"
  "d_closeButton (call k d) = d_closeButton d" "d_font (call k d) = d_font d" "d_dpi (call k d) = d_dpi d"
  "d_loadingKeys (call k d) = d_loadingKeys d" "d_keyClass (call k d) = d_keyClass d"
  "d_loaders (call k d) = d_loaders d" "d_sending (call k d) = d_sending d"
  "d_readying (call k d) = d_readying d" "d_noticers (call k d) = d_noticers d"
  "d_noticing (call k d) = d_noticing d" "d_posted (call k d) = d_posted d"
  "d_calls (call k d) = d_calls d @ [k]" "d_notesEnabled (call k d) = d_notesEnabled d"
  "d_ownedIcon (call k d) = d_ownedIcon d" "d_ownedLarge (call k d) = d_ownedLarge d"
  "d_trayVersion4 (call k d) = d_trayVersion4 d" "d_taskbarReady (call k d) = d_taskbarReady d"
  by (simp_all add: call_def)

section \<open>Geometry\<close>

text \<open>\<open>value * int32(d.dpi) / 96\<close> in 32-bit signed arithmetic; Go's division truncates.\<close>

definition scale :: "desktop \<Rightarrow> i32 \<Rightarrow> i32" where
  "scale d v = word_of_int (sint (v * d_dpi d) sdiv 96)"

definition windowDPI :: "ui_os \<Rightarrow> u32" where
  "windowDPI os =
     (case ui_dpi_for_window os of
        None \<Rightarrow> 96
      | Some dpi \<Rightarrow> if dpi > 0 then u32_of dpi else 96)"

text \<open>
  At the DPI values Windows reports, a product of any length in the program fits 32 bits:
  the result is the exact quotient, and it is monotone in the length.
\<close>

lemma fits_i32: "0 \<le> k \<Longrightarrow> k < 2 ^ 31 \<Longrightarrow> signed_take_bit 31 k = k" for k :: int
  by (rule signed_take_bit_int_eq_self) simp_all

lemma sint_small: "unat w < 2 ^ 31 \<Longrightarrow> sint w = int (unat w)" for w :: i32
proof -
  assume small: "unat w < 2 ^ 31"
  have "int (unat w) = uint w" by (rule uint_nat [symmetric])
  moreover have "uint w < 2 ^ 31"
    using small unfolding unat_eq_nat_uint by (subst (asm) nat_less_iff) simp_all
  moreover have "sint (word_of_int (uint w) :: i32) = signed_take_bit 31 (uint w)"
    by (subst sint_sbintrunc') simp
  ultimately show ?thesis by (simp only: fits_i32 uint_ge_0 word_of_int_uint)
qed

lemma scale_exact:
  assumes "unat (d_dpi d) < 2 ^ 16" "0 \<le> sint v" "sint v < 2 ^ 15"
  shows "sint (scale d v) = sint v * int (unat (d_dpi d)) div 96"
proof -
  define p where "p = int (unat (d_dpi d))"
  have p: "0 \<le> p" "p < 2 ^ 16"
    using of_nat_less_iff [of "unat (d_dpi d)" "2 ^ 16", where 'a = int] assms(1)
    unfolding p_def by (simp_all del: of_nat_unat)
  have sdpi: "sint (d_dpi d) = p"
    unfolding p_def using assms(1) by (intro sint_small) simp
  have "sint v * p \<le> 2 ^ 15 * 2 ^ 16"
    using assms p by (intro mult_mono) simp_all
  moreover have "sint v * p \<noteq> 2 ^ 15 * 2 ^ 16"
    using assms p mult_strict_mono [of "sint v" "2 ^ 15" p "2 ^ 16"] by simp
  ultimately have prod: "0 \<le> sint v * p" "sint v * p < 2 ^ 31"
    using assms(2) p by simp_all
  have "sint (v * d_dpi d) = sint v * p"
    using prod sdpi by (simp add: sint_word_mult fits_i32)
  moreover have "(sint v * p) sdiv 96 = sint v * p div 96"
    using prod by (simp add: signed_divide_int_def sgn_if)
  moreover have "sint (word_of_int (sint v * p div 96) :: i32) = sint v * p div 96"
    using prod by (simp add: sint_sbintrunc' fits_i32)
  ultimately show ?thesis by (simp add: scale_def p_def)
qed

definition updateFont :: "ui_os \<Rightarrow> desktop \<Rightarrow> desktop" where
  "updateFont os d =
     (let font = ui_create_font os in
      if font = 0 then d
      else
        let previous = d_font d;
            d = d\<lparr>d_font := font\<rparr>;
            d = fold (\<lambda>h. call (Set_font h font))
                  [d_keyStatus d, d_keyList d, d_refreshButton d, d_closeButton d] d
        in if previous \<noteq> 0 then call (Delete_font previous) d else d)"

definition at_least_one :: "i32 \<Rightarrow> i32" where
  "at_least_one w = (if sint w < 1 then 1 else w)"

definition move :: "hwnd \<Rightarrow> i32 \<Rightarrow> i32 \<Rightarrow> i32 \<Rightarrow> i32 \<Rightarrow> desktop \<Rightarrow> desktop" where
  "move h x y w ht = call (Move_window h x y (at_least_one w) (at_least_one ht))"

definition layoutKeys :: "ui_os \<Rightarrow> desktop \<Rightarrow> desktop" where
  "layoutKeys os d =
     (if d_keyList d = 0 then d
      else case ui_client_rect os of
        (rect_left, rect_top, rect_right, rect_bottom) \<Rightarrow>
          let pad = scale d 12; status = scale d 32; button = scale d 28; gap = scale d 8;
              width = rect_right - rect_left; height = rect_bottom - rect_top;
              d = move (d_keyStatus d) pad pad (width - 2 * pad) status d;
              d = move (d_keyList d) pad (pad + status + gap) (width - 2 * pad)
                    (height - 3 * pad - status - gap - button) d;
              d = move (d_refreshButton d) (width - pad - scale d 184) (height - pad - button)
                    (scale d 88) button d
          in move (d_closeButton d) (width - pad - scale d 88) (height - pad - button)
               (scale d 88) button d)"

lemma same_desktop_fold_call: "same_desktop d (fold (\<lambda>h. call (f h)) hs d') = same_desktop d d'"
  by (induction hs arbitrary: d') simp_all

lemma layoutKeys_same: "same_desktop d (layoutKeys os d)"
  by (simp add: layoutKeys_def Let_def move_def split: prod.split)

text \<open>No control is ever given an empty or negative size.\<close>

lemma at_least_one_positive: "1 \<le> sint (at_least_one w)"
  by (simp add: at_least_one_def)

section \<open>Loading the keys\<close>

text \<open>
  The goroutine that loads is counted. When it has its list it looks at \<open>closed\<close>
  (\<open>loader_check\<close>), sends the result unless the channel is full (\<open>loader_send\<close>) and posts the
  message (\<open>loader_post\<close>); other threads may come in between. \<open>loader_done\<close> is the three at
  once.
\<close>

definition refreshKeys :: "desktop \<Rightarrow> desktop" where
  "refreshKeys d =
     (if d_loadingKeys d then call (Enable_window (d_refreshButton d) False) d
      else
        let d = d\<lparr>d_loadingKeys := True\<rparr>;
            d = call (Set_window_text (d_keyStatus d)
                  (uiString (lit ''Loading SSH keys from the OpenSSH agent'' @ ellipsis))) d;
            d = call (Enable_window (d_refreshButton d) False) d;
            d = call (List_delete_all (d_keyList d)) d
        in d\<lparr>d_loaders := Suc (d_loaders d)\<rparr>)"

definition wmTrayIcon :: u32 where "wmTrayIcon = 0x8000 + 51"
definition wmTrayNotice :: u32 where "wmTrayNotice = 0x8000 + 52"
definition wmKeysReady :: u32 where "wmKeysReady = 0x8000 + 53"

definition key_result_of :: "list_error + Key list \<Rightarrow> key_result" where
  "key_result_of r =
     (case r of
        Inl e \<Rightarrow> \<lparr>result_keys = [], result_err = Some e\<rparr>
      | Inr ks \<Rightarrow> \<lparr>result_keys = ks, result_err = None\<rparr>)"

definition loader_check :: "list_error + Key list \<Rightarrow> desktop \<Rightarrow> desktop" where
  "loader_check listed d =
     (let d = d\<lparr>d_loaders := d_loaders d - 1\<rparr> in
      if d_closed d then d else d\<lparr>d_sending := key_result_of listed # d_sending d\<rparr>)"

definition loader_send :: "desktop \<Rightarrow> desktop" where
  "loader_send d =
     (case d_sending d of
        [] \<Rightarrow> d
      | result # rest \<Rightarrow>
          let d = d\<lparr>d_sending := rest\<rparr> in
          if length (d_keysReady d) < 1
          then d\<lparr>d_keysReady := d_keysReady d @ [result], d_readying := Suc (d_readying d)\<rparr>
          else d)"

definition loader_post :: "ui_os \<Rightarrow> desktop \<Rightarrow> desktop" where
  "loader_post os d = post os wmKeysReady (d\<lparr>d_readying := d_readying d - 1\<rparr>)"

definition loader_done :: "ui_os \<Rightarrow> list_error + Key list \<Rightarrow> desktop \<Rightarrow> desktop" where
  "loader_done os listed d =
     (let d = d\<lparr>d_loaders := d_loaders d - 1\<rparr> in
      if d_closed d then d
      else if length (d_keysReady d) < 1
      then post os wmKeysReady (d\<lparr>d_keysReady := d_keysReady d @ [key_result_of listed]\<rparr>)
      else d)"

section \<open>Showing the keys\<close>

definition key_row :: "Key \<Rightarrow> u16 list option list" where
  "key_row key = [uiString (key_type key), uiString (key_fingerprint key), uiString (key_comment key)]"

fun display_rows :: "hwnd \<Rightarrow> nat \<Rightarrow> Key list \<Rightarrow> desktop \<Rightarrow> desktop" where
  "display_rows list_view index [] d = d"
| "display_rows list_view index (key # keys) d =
     display_rows list_view (index + 1) keys
       (call (List_set_item list_view index 2 (uiString (key_comment key)))
         (call (List_set_item list_view index 1 (uiString (key_fingerprint key)))
           (call (List_insert_item list_view index (uiString (key_type key))) d)))"

definition key_status :: "key_result \<Rightarrow> gostr" where
  "key_status result =
     (if result_err result \<noteq> None then
        lit ''OpenSSH agent unavailable. Check the agent service, then select Refresh.''
      else if result_keys result = [] then
        lit ''No SSH keys are loaded. Add a key with ssh-add, then select Refresh.''
      else Itoa (length (result_keys result))
           @ lit '' SSH key(s) available. Only public key details are shown.'')"

definition displayKeys :: "ui_os \<Rightarrow> key_result \<Rightarrow> desktop \<Rightarrow> desktop" where
  "displayKeys os result d =
     (let d = call (Enable_window (d_refreshButton d) True) d;
          d = call (List_delete_all (d_keyList d)) d;
          d = (if result_err result \<noteq> None then call (Log (lit ''List SSH keys'')) d else d);
          d = call (Set_window_text (d_keyStatus d) (uiString (key_status result))) d
      in if result_err result \<noteq> None then d
         else
           let d = call (Set_redraw (d_keyList d) False) d;
               d = display_rows (d_keyList d) 0 (result_keys result) d;
               d = call (Set_redraw (d_keyList d) True) d
           in layoutKeys os d)"

text \<open>What the list view holds after a sequence of calls.\<close>

definition set_cell :: "nat \<Rightarrow> nat \<Rightarrow> 'a \<Rightarrow> 'a list list \<Rightarrow> 'a list list" where
  "set_cell i j v rows =
     (if i < length rows
      then rows[i := (if j < length (rows ! i) then (rows ! i)[j := v] else rows ! i @ [v])]
      else rows)"

fun list_view_step :: "hwnd \<Rightarrow> ui_call \<Rightarrow> u16 list option list list \<Rightarrow> u16 list option list list" where
  "list_view_step h (List_delete_all h') rows = (if h' = h then [] else rows)"
| "list_view_step h (List_insert_item h' i v) rows =
     (if h' = h then take i rows @ [v] # drop i rows else rows)"
| "list_view_step h (List_set_item h' i j v) rows = (if h' = h then set_cell i j v rows else rows)"
| "list_view_step h _ rows = rows"

definition list_view :: "hwnd \<Rightarrow> ui_call list \<Rightarrow> u16 list option list list" where
  "list_view h calls = fold (list_view_step h) calls []"

lemma list_view_append: "list_view h (calls @ ks) = fold (list_view_step h) ks (list_view h calls)"
  by (simp add: list_view_def)

lemma display_rows_frame: "same_desktop d (display_rows h i keys d') = same_desktop d d'"
  by (induction h i keys d' rule: display_rows.induct) simp_all

lemma display_row_sel: "d_keyList (display_rows h i keys d) = d_keyList d"
  by (induction h i keys d rule: display_rows.induct) simp_all

lemma display_rows_view:
  "length (list_view h (d_calls d)) = i \<Longrightarrow>
   list_view h (d_calls (display_rows h i keys d)) = list_view h (d_calls d) @ map key_row keys"
proof (induction h i keys d rule: display_rows.induct)
  case (2 h i key keys d)
  let ?d = "call (List_set_item h i 2 (uiString (key_comment key)))
      (call (List_set_item h i 1 (uiString (key_fingerprint key)))
        (call (List_insert_item h i (uiString (key_type key))) d))"
  have "list_view h (d_calls ?d) = list_view h (d_calls d) @ [key_row key]"
    using 2(2) by (simp add: list_view_append set_cell_def key_row_def nth_append list_update_append)
  then show ?case using 2 by simp
qed simp

text \<open>Calls that are not about the list's items leave its contents.\<close>

lemma layoutKeys_view: "list_view h (d_calls (layoutKeys os d)) = list_view h (d_calls d)"
  by (simp add: layoutKeys_def Let_def move_def list_view_append split: prod.split)

lemma displayKeys_same: "same_desktop d (displayKeys os result d)"
proof -
  have "same_desktop d d' \<Longrightarrow> same_desktop d (layoutKeys os d')" for d'
    using layoutKeys_same [of d' os] by (simp add: same_desktop_def)
  then show ?thesis by (simp add: displayKeys_def Let_def display_rows_frame)
qed

text \<open>
  After a result is shown, the list holds exactly its keys: the type, the fingerprint and
  the comment of each, in order, and nothing of what was shown before. A failed listing
  leaves it empty.
\<close>

lemma displayKeys_view:
  "list_view (d_keyList d) (d_calls (displayKeys os result d)) =
    (if result_err result = None then map key_row (result_keys result) else [])"
  using display_rows_view [of "d_keyList d"]
  by (auto simp: displayKeys_def Let_def layoutKeys_view list_view_append display_row_sel)

section \<open>The window procedure\<close>

definition keyRefresh :: nat where "keyRefresh = 1"
definition keyClose :: nat where "keyClose = 2"

text \<open>
  \<open>WM_NCDESTROY\<close>, which Windows sends while \<open>DestroyWindow\<close> runs: the controls are gone,
  the font is released.
\<close>

definition nc_destroy :: "desktop \<Rightarrow> desktop" where
  "nc_destroy d =
     (let d = d\<lparr>d_keyWindow := 0, d_keyList := 0, d_keyStatus := 0, d_refreshButton := 0,
                d_closeButton := 0\<rparr>
      in if d_font d \<noteq> 0 then (call (Delete_font (d_font d)) d)\<lparr>d_font := 0\<rparr> else d)"

text \<open>\<open>DestroyWindow\<close> of the key window; it fails on the null handle.\<close>

definition destroy_key_window :: "hwnd \<Rightarrow> desktop \<Rightarrow> desktop" where
  "destroy_key_window h d =
     (if h = 0 then call (Destroy_window h) d else nc_destroy (call (Destroy_window h) d))"

text \<open>
  What a window procedure answers: a value, the minimal size it wrote for
  \<open>WM_GETMINMAXINFO\<close>, or \<open>DefWindowProc\<close>.
\<close>

datatype proc_answer = Answer nat | Min_track i32 i32 | Default_proc

definition keysWndProc ::
  "ui_os \<Rightarrow> hwnd \<Rightarrow> u32 \<Rightarrow> nat \<Rightarrow> i32 \<times> i32 \<times> i32 \<times> i32 \<Rightarrow> desktop \<Rightarrow> proc_answer \<times> desktop" where
  "keysWndProc os h msg wParam rect d =
     (if msg = 0x5 then (Answer 0, layoutKeys os d)
      else if msg = 0x24 then (Min_track (scale d 560) (scale d 280), d)
      else if msg = 0x2e0 then
        (case rect of
           (rect_left, rect_top, rect_right, rect_bottom) \<Rightarrow>
             let d = d\<lparr>d_dpi := u32_of (wParam mod 2 ^ 16)\<rparr>;
                 d = updateFont os d;
                 d = call (Set_window_pos h rect_left rect_top (rect_right - rect_left) (rect_bottom - rect_top)) d
             in (Answer 0, layoutKeys os d))
      else if msg = 0x111 then
        (Answer 0,
         if wParam mod 2 ^ 16 = keyRefresh then refreshKeys d
         else if wParam mod 2 ^ 16 = keyClose then destroy_key_window h d
         else d)
      else if msg = 0x10 then (Answer 0, destroy_key_window h d)
      else if msg = 0x82 then (Default_proc, nc_destroy d)
      else (Default_proc, d))"

definition translateMessage :: "ui_os \<Rightarrow> desktop \<Rightarrow> bool" where
  "translateMessage os d \<longleftrightarrow> d_keyWindow d \<noteq> 0 \<and> ui_is_dialog os"

section \<open>Opening the window\<close>

definition open_columns :: "hwnd \<Rightarrow> desktop \<Rightarrow> desktop" where
  "open_columns h d =
     fold (\<lambda>(index, title, width) d. call (List_insert_column h index (uiString title) (scale d width)) d)
       [(0, lit ''Type'', 140), (1, lit ''SHA256 fingerprint'', 380), (2, lit ''Comment'', 330)] d"

text \<open>The window class is registered once; \<open>Inl\<close> is the failure that is logged.\<close>

definition register_class :: "ui_os \<Rightarrow> desktop \<Rightarrow> gostr + desktop" where
  "register_class os d =
     (if d_keyClass d then Inr d
      else if \<not> ui_init_controls os then Inl (lit ''Initialize key-list controls'')
      else if \<not> ui_register_class os then Inl (lit ''Register key window'')
      else Inr (d\<lparr>d_keyClass := True\<rparr>))"

text \<open>\<open>control\<close>: a child window, visible (\<open>WS_CHILD | WS_VISIBLE\<close>), by class and text.\<close>

definition control :: "ui_os \<Rightarrow> gostr \<Rightarrow> gostr \<Rightarrow> u32 \<Rightarrow> nat \<Rightarrow> desktop \<Rightarrow> hwnd \<times> desktop" where
  "control os class_name title style control_id d =
     (ui_create_control os class_name title,
      call (Create_control (uiString class_name) (uiString title) (style OR 0x50000000) control_id) d)"

definition create_controls :: "ui_os \<Rightarrow> desktop \<Rightarrow> desktop" where
  "create_controls os d =
     (let d = d\<lparr>d_dpi := windowDPI os\<rparr>;
          d = (if d_dpi d \<noteq> 96
               then call (Set_window_pos (d_keyWindow d) 0 0 (scale d 940) (scale d 420)) d else d);
          (h, d) = control os (lit ''STATIC'') (lit ''Loading SSH keys'' @ ellipsis) 0 0 d;
          d = d\<lparr>d_keyStatus := h\<rparr>;
          (h, d) = control os (lit ''SysListView32'') (lit ''SSH keys'')
                     (0x00800000 OR 0x00010000 OR 1 OR 4 OR 8) 100 d;
          d = d\<lparr>d_keyList := h\<rparr>;
          (h, d) = control os (lit ''BUTTON'') (lit ''&Refresh'') (0x00010000 OR 1) keyRefresh d;
          d = d\<lparr>d_refreshButton := h\<rparr>;
          (h, d) = control os (lit ''BUTTON'') (lit ''&Close'') 0x00010000 keyClose d
      in d\<lparr>d_closeButton := h\<rparr>)"

definition showKeys :: "ui_os \<Rightarrow> desktop \<Rightarrow> desktop" where
  "showKeys os d =
     (if d_keyWindow d \<noteq> 0
      then call (Set_foreground (d_keyWindow d)) (call (Show_window (d_keyWindow d) 9) d)
      else case register_class os d of
        Inl failure \<Rightarrow> call (Log failure) d
      | Inr d \<Rightarrow>
          let d = call (Create_key_window (uiString (lit ''SSH keys '' @ em_dash @ lit '' winssh-pageant'')) 940 420) d;
              d = d\<lparr>d_keyWindow := ui_create_key_window os\<rparr> in
          if d_keyWindow d = 0 then call (Log (lit ''Create key window'')) d
          else
            let d = create_controls os d in
            if d_keyStatus d = 0 \<or> d_keyList d = 0 \<or> d_refreshButton d = 0 \<or> d_closeButton d = 0
            then destroy_key_window (d_keyWindow d) (call (Log (lit ''Create key-list controls'')) d)
            else
              let d = call (List_style (d_keyList d)) d;
                  d = open_columns (d_keyList d) d;
                  d = updateFont os d;
                  d = layoutKeys os d;
                  d = call (Show_window (d_keyWindow d) 5) d;
                  d = call (Set_foreground (d_keyWindow d)) d;
                  d = call (Set_focus (d_refreshButton d)) d
              in refreshKeys d)"

section \<open>The window's fields\<close>

text \<open>
  With the window closed no control handle and no font is left; with it open every control
  exists.
\<close>

definition window_ok :: "desktop \<Rightarrow> bool" where
  "window_ok d \<longleftrightarrow>
     (if d_keyWindow d = 0
      then d_keyList d = 0 \<and> d_keyStatus d = 0 \<and> d_refreshButton d = 0 \<and> d_closeButton d = 0 \<and> d_font d = 0
      else d_keyList d \<noteq> 0 \<and> d_keyStatus d \<noteq> 0 \<and> d_refreshButton d \<noteq> 0 \<and> d_closeButton d \<noteq> 0)"

text \<open>The state of the loader: at most one result is being listed, sent or waiting.\<close>

definition under_way :: "desktop \<Rightarrow> nat" where
  "under_way d = d_loaders d + length (d_sending d) + length (d_keysReady d)"

definition loading_ok :: "desktop \<Rightarrow> bool" where
  "loading_ok d \<longleftrightarrow>
     under_way d \<le> (if d_loadingKeys d then 1 else 0)
     \<and> (d_loadingKeys d \<and> \<not> d_closed d \<longrightarrow> under_way d = 1)"

lemmas loading_defs = loading_ok_def under_way_def

text \<open>The fields these invariants, and the queues, are about.\<close>

definition core :: "desktop \<Rightarrow> bool \<times> (gostr \<times> gostr) list \<times> key_result list \<times> bool \<times> nat
    \<times> u32 list \<times> u32 \<times> hwnd \<times> gostr \<times> key_result list \<times> nat \<times> (gostr \<times> gostr) list \<times> nat" where
  "core d = (d_closed d, d_notices d, d_keysReady d, d_loadingKeys d, d_loaders d, d_posted d, d_taskbarReady d,
     d_hwnd d, d_pipe d, d_sending d, d_readying d, d_noticers d, d_noticing d)"

definition window :: "desktop \<Rightarrow> hwnd \<times> hwnd \<times> hwnd \<times> hwnd \<times> hwnd" where
  "window d = (d_keyWindow d, d_keyList d, d_keyStatus d, d_refreshButton d, d_closeButton d)"

lemmas desktop_parts = core_def window_def

lemma core_call [simp]: "core (call k d) = core d" "window (call k d) = window d"
  by (simp_all add: desktop_parts)

lemma core_same: "same_desktop d d' \<Longrightarrow> core d' = core d \<and> window d' = window d \<and> d_font d' = d_font d"
  unfolding same_desktop_def desktop_parts by (cases d; cases d') simp

lemma core_fold_call: "core (fold (\<lambda>h. call (f h)) hs d) = core d"
  "window (fold (\<lambda>h. call (f h)) hs d) = window d"
  by (induction hs arbitrary: d) simp_all

lemma core_layout [simp]:
  "core (layoutKeys os d) = core d" "window (layoutKeys os d) = window d" "d_font (layoutKeys os d) = d_font d"
  using core_same [OF layoutKeys_same] by blast+

lemma core_display [simp]:
  "core (displayKeys os result d) = core d" "window (displayKeys os result d) = window d"
  "d_font (displayKeys os result d) = d_font d"
  using core_same [OF displayKeys_same] by blast+

lemma core_font [simp]: "core (updateFont os d) = core d" "window (updateFont os d) = window d"
proof -
  have "core (d\<lparr>d_font := f\<rparr>) = core d" "window (d\<lparr>d_font := f\<rparr>) = window d" for f
    by (simp_all add: desktop_parts)
  then show "core (updateFont os d) = core d" "window (updateFont os d) = window d"
    by (simp_all add: updateFont_def Let_def)
qed

lemma core_columns [simp]: "core (open_columns h d) = core d" "window (open_columns h d) = window d"
  by (simp_all add: open_columns_def)

lemma core_nc_destroy [simp]: "core (nc_destroy d) = core d"
  by (simp add: nc_destroy_def Let_def desktop_parts)

lemma core_destroy [simp]: "core (destroy_key_window h d) = core d"
  by (simp add: destroy_key_window_def)

lemma core_controls [simp]: "core (create_controls os d) = core d" "d_keyWindow (create_controls os d) = d_keyWindow d"
  by (simp_all add: create_controls_def control_def Let_def desktop_parts)

lemma loading_ok_core: "core d' = core d \<Longrightarrow> loading_ok d' = loading_ok d"
  by (simp add: loading_defs desktop_parts)

lemma refreshKeys_core:
  "core (refreshKeys d) = (d_closed d, d_notices d, d_keysReady d, True,
     (if d_loadingKeys d then d_loaders d else Suc (d_loaders d)), d_posted d, d_taskbarReady d, d_hwnd d, d_pipe d,
     d_sending d, d_readying d, d_noticers d, d_noticing d)"
  "window (refreshKeys d) = window d" "d_font (refreshKeys d) = d_font d"
  by (simp_all add: refreshKeys_def Let_def desktop_parts)

lemma refreshKeys_loading: "loading_ok d \<Longrightarrow> loading_ok (refreshKeys d)"
  using refreshKeys_core(1) [of d] by (auto simp: loading_defs desktop_parts split: if_splits)

lemma window_ok_nc_destroy [simp]: "window_ok (nc_destroy d)"
  by (simp add: window_ok_def nc_destroy_def Let_def)

lemma window_ok_destroy: "window_ok d \<Longrightarrow> window_ok (destroy_key_window h d)"
  by (simp add: destroy_key_window_def) (simp add: window_ok_def)

lemma window_ok_same: "window d' = window d \<Longrightarrow> d_font d' = d_font d \<Longrightarrow> window_ok d' = window_ok d"
  by (simp add: window_ok_def window_def)

text \<open>\<open>showKeys\<close> ends with the window either fully there or fully gone.\<close>

lemma showKeys_outcome:
  obtains (no_load) "core (showKeys os d) = core d" "window_ok d \<Longrightarrow> window_ok (showKeys os d)"
  | (load) d' where "showKeys os d = refreshKeys d'" "core d' = core d" "window_ok d'"
      "d_keyWindow d' = ui_create_key_window os" "ui_create_key_window os \<noteq> 0"
proof -
  have reg: "core d1 = core d \<and> (window_ok d \<longrightarrow> window_ok d1) \<and> d_keyWindow d1 = d_keyWindow d"
    if "register_class os d = Inr d1" for d1
    using that by (auto simp: register_class_def core_def window_ok_def split: if_splits)
  have log: "window_ok (call k d') = window_ok d'" for k d'
    by (simp add: window_ok_def)
  consider (shown) "d_keyWindow d \<noteq> 0" | (unregistered) "d_keyWindow d = 0" "\<exists>e. register_class os d = Inl e"
    | (uncreated) d1 where "d_keyWindow d = 0" "register_class os d = Inr d1" "ui_create_key_window os = 0"
    | (created) d1 where "d_keyWindow d = 0" "register_class os d = Inr d1" "ui_create_key_window os \<noteq> 0"
    by (cases "register_class os d") auto
  then show ?thesis
  proof cases
    case shown
    then show ?thesis by (intro no_load) (simp_all add: showKeys_def log)
  next
    case unregistered
    then show ?thesis by (intro no_load) (auto simp: showKeys_def log)
  next
    case (uncreated d1)
    note r = reg [OF uncreated(2)]
    let ?create = "Create_key_window (uiString (lit ''SSH keys '' @ em_dash @ lit '' winssh-pageant'')) 940 420"
    have same: "(call ?create d1)\<lparr>d_keyWindow := 0\<rparr> = call ?create d1"
      using r uncreated(1) by (cases d1) (simp add: call_def)
    have eq: "showKeys os d = call (Log (lit ''Create key window'')) (call ?create d1)"
      using uncreated r by (simp add: showKeys_def Let_def same)
    show ?thesis by (rule no_load) (simp_all add: eq r log)
  next
    case (created d1)
    then have False: "d_keyWindow d = 0" "ui_create_key_window os \<noteq> 0" and
      d1: "register_class os d = Inr d1" "core d1 = core d" using reg by auto
    define d1' where "d1' = (call (Create_key_window (uiString (lit ''SSH keys '' @ em_dash @ lit '' winssh-pageant'')) 940 420) d1)
      \<lparr>d_keyWindow := ui_create_key_window os\<rparr>"
    let ?d2 = "create_controls os d1'"
    have d1': "d_keyWindow d1' = ui_create_key_window os" "core d1' = core d1"
      by (simp_all add: d1'_def core_def)
    with d1(2) have core2: "core ?d2 = core d" by simp
    have show_eq: "showKeys os d = (if d_keyStatus ?d2 = 0 \<or> d_keyList ?d2 = 0 \<or> d_refreshButton ?d2 = 0 \<or> d_closeButton ?d2 = 0
        then destroy_key_window (d_keyWindow ?d2) (call (Log (lit ''Create key-list controls'')) ?d2)
        else let d = call (List_style (d_keyList ?d2)) ?d2;
                 d = layoutKeys os (updateFont os (open_columns (d_keyList d) d));
                 d = call (Show_window (d_keyWindow d) 5) d;
                 d = call (Set_foreground (d_keyWindow d)) d
             in refreshKeys (call (Set_focus (d_refreshButton d)) d))"
      using False d1(1) d1'(1) by (simp add: showKeys_def d1'_def [symmetric] Let_def)
    show ?thesis
    proof (cases "d_keyStatus ?d2 = 0 \<or> d_keyList ?d2 = 0 \<or> d_refreshButton ?d2 = 0 \<or> d_closeButton ?d2 = 0")
      case failed: True
      then have "showKeys os d = destroy_key_window (d_keyWindow ?d2) (call (Log (lit ''Create key-list controls'')) ?d2)"
        by (simp add: show_eq)
      with False core2 d1'(1) show ?thesis
        by (intro no_load) (auto simp: destroy_key_window_def)
    next
      case created: False
      define d3 where "d3 = layoutKeys os (updateFont os (open_columns (d_keyList ?d2) (call (List_style (d_keyList ?d2)) ?d2)))"
      define d4 where "d4 = call (Set_focus (d_refreshButton d3)) (call (Set_foreground (d_keyWindow d3))
        (call (Show_window (d_keyWindow d3) 5) d3))"
      have "showKeys os d = refreshKeys d4"
        using created by (simp add: show_eq Let_def d3_def d4_def)
      moreover have "core d4 = core d" "window d4 = window ?d2"
        using core2 by (simp_all add: d3_def d4_def)
      moreover have "window_ok d4"
        using calculation(3) False created d1'(1) by (auto simp: window_def window_ok_def)
      moreover have "d_keyWindow d4 = ui_create_key_window os" "ui_create_key_window os \<noteq> 0"
        using calculation(3) False d1'(1) by (simp_all add: window_def)
      ultimately show ?thesis by (intro load [of d4])
    qed
  qed
qed

lemma showKeys_loading: "loading_ok d \<Longrightarrow> loading_ok (showKeys os d)"
proof (cases rule: showKeys_outcome [of os d])
  case no_load
  then show "loading_ok d \<Longrightarrow> ?thesis" using loading_ok_core [of "showKeys os d" d] by blast
next
  case (load d')
  then show "loading_ok d \<Longrightarrow> ?thesis" 
    using refreshKeys_loading [of d'] loading_ok_core [of d' d] by metis
qed

lemma showKeys_window: "window_ok d \<Longrightarrow> window_ok (showKeys os d)"
proof (cases rule: showKeys_outcome [of os d])
  case (load d')
  then show ?thesis using window_ok_same [OF refreshKeys_core(2,3)] by simp
qed

text \<open>Every message to the key window keeps both.\<close>

lemma keysWndProc_ok:
  assumes "window_ok d" "loading_ok d" "h = d_keyWindow d \<or> msg = 0x82" "h \<noteq> 0"
  shows "window_ok (snd (keysWndProc os h msg wParam rect d))"
    and "loading_ok (snd (keysWndProc os h msg wParam rect d))"
proof -
  let ?dpi = "d\<lparr>d_dpi := u32_of (wParam mod 2 ^ 16)\<rparr>"
  have dpi: "core ?dpi = core d" "window ?dpi = window d"
    by (simp_all add: desktop_parts)
  have opened: "window_ok d' = window_ok d" if "window d' = window d" "d_keyWindow d \<noteq> 0" for d'
    using that by (simp add: window_def window_ok_def)
  have kept: "loading_ok d'" if "core d' = core d" for d'
    using loading_ok_core [OF that] assms(2) by blast
  consider "msg = 0x5" | "msg = 0x24" | (dpi_changed) "msg = 0x2e0" | (command) "msg = 0x111" | "msg = 0x10" | "msg = 0x82"
    | "msg \<notin> {0x5, 0x24, 0x2e0, 0x111, 0x10, 0x82}" by auto
  then have "window_ok (snd (keysWndProc os h msg wParam rect d)) \<and> loading_ok (snd (keysWndProc os h msg wParam rect d))"
  proof cases
    case dpi_changed
    obtain l t r b where rect: "rect = (l, t, r, b)" by (cases rect)
    define d' where "d' = layoutKeys os (call (Set_window_pos h l t (r - l) (b - t)) (updateFont os ?dpi))"
    have "core d' = core d" "window d' = window d" using dpi by (simp_all add: d'_def)
    then have "window_ok d'" "loading_ok d'" using assms opened [of d'] kept dpi_changed by simp_all
    moreover have "snd (keysWndProc os h msg wParam rect d) = d'"
      using dpi_changed by (simp add: keysWndProc_def rect Let_def d'_def)
    ultimately show ?thesis by simp
  next
    case command
    then show ?thesis
      using assms(1,2) window_ok_destroy [OF assms(1), of h] window_ok_same [OF refreshKeys_core(2,3), of d]
        refreshKeys_loading [OF assms(2)] kept [of "destroy_key_window h d"]
      by (simp add: keysWndProc_def keyRefresh_def keyClose_def)
  qed (use assms(1,2) window_ok_destroy [OF assms(1), of h] kept [of "layoutKeys os d"]
      kept [of "nc_destroy d"] kept [of "destroy_key_window h d"] window_ok_same [of "layoutKeys os d" d]
      in \<open>simp_all add: keysWndProc_def\<close>)
  then show "window_ok (snd (keysWndProc os h msg wParam rect d))"
    "loading_ok (snd (keysWndProc os h msg wParam rect d))" by blast+
qed

lemma keysWndProc_core:
  "core (snd (keysWndProc os h msg wParam rect d)) = core d
   \<or> core (snd (keysWndProc os h msg wParam rect d)) = core (refreshKeys d)"
proof -
  have "core (d\<lparr>d_dpi := x\<rparr>) = core d" for x by (simp add: core_def)
  then show ?thesis by (cases rect) (simp add: keysWndProc_def Let_def)
qed

lemma keysWndProc_notices: "d_notices (snd (keysWndProc os h msg wParam rect d)) = d_notices d"
  using keysWndProc_core [of os h msg wParam rect d] refreshKeys_core(1) [of d]
  by (auto simp: core_def)

end
