(* ===== verification/Desktop.thy ===== *)
theory Desktop
  imports KeyWindow Machine
begin

text \<open>
  The tray icon, the signing notices and the message dispatch
  (\<^verbatim>\<open>pageant/desktop_windows.go\<close>): \<open>newDesktop\<close>, \<open>addTrayIcon\<close>, \<open>notify\<close>, \<open>onMessage\<close>,
  \<open>showTrayMenu\<close> and \<open>close\<close>, and the machine of the UI thread, the transport workers that
  call \<open>notify\<close> and the goroutines that load keys.
\<close>

section \<open>The tray icon\<close>

definition notice_capacity :: nat where "notice_capacity = 16"

definition addTrayIcon :: "('a) ui_os_scheme \<Rightarrow> desktop \<Rightarrow> desktop" where
  "addTrayIcon os d =
     (if d_closed d \<or> d_trayAdded d then d
      else
        let d = call (Tray_add (copyUIText (replicate 128 0)
                  (lit ''winssh-pageant '' @ em_dash @ lit '' running''))) d in
        if \<not> ui_tray_add_works os then call Set_timer d
        else
          let d = d\<lparr>d_trayAdded := True\<rparr>;
              d = call Kill_timer d;
              d = call Tray_set_version d
          in d\<lparr>d_trayVersion4 := ui_tray_version_works os\<rparr>)"

text \<open>The icons and the message number Windows gives; no number is an error, and closes.\<close>

definition close_desktop :: "desktop \<Rightarrow> desktop" where
  "close_desktop d =
     (if d_closed d then d
      else
        let d = d\<lparr>d_closed := True\<rparr>;
            d = call Kill_timer d;
            d = (if d_trayAdded d then (call Tray_delete d)\<lparr>d_trayAdded := False\<rparr> else d);
            d = (if d_keyWindow d \<noteq> 0 then destroy_key_window (d_keyWindow d) d else d);
            d = (if d_keyClass d then call Unregister_keys_class d else d);
            d = (if d_ownedIcon d \<noteq> 0 then call (Destroy_icon (d_ownedIcon d)) d else d)
        in if d_ownedLarge d \<noteq> 0 \<and> d_ownedLarge d \<noteq> d_ownedIcon d
           then call (Destroy_icon (d_ownedLarge d)) d else d)"

definition fresh_desktop :: "hwnd \<Rightarrow> gostr \<Rightarrow> nat \<Rightarrow> nat \<Rightarrow> nat \<Rightarrow> desktop" where
  "fresh_desktop hwnd sshPipe icon largeIcon fallback =
     \<lparr>d_hwnd = hwnd, d_pipe = sshPipe, d_closed = False, d_notices = [], d_keysReady = [],
      d_icon = (if icon = 0 then fallback else icon),
      d_largeIcon = (if largeIcon = 0 then (if icon = 0 then fallback else icon) else largeIcon),
      d_ownedIcon = icon, d_ownedLarge = largeIcon,
      d_trayAdded = False, d_trayVersion4 = False, d_taskbarReady = 0, d_notesEnabled = True,
      d_keyWindow = 0, d_keyList = 0, d_keyStatus = 0, d_refreshButton = 0, d_closeButton = 0,
      d_font = 0, d_dpi = 96, d_loadingKeys = False, d_keyClass = False,
      d_loaders = 0, d_sending = [], d_readying = 0, d_noticers = [], d_noticing = 0,
      d_posted = [], d_calls = []\<rparr>"

text \<open>
  \<open>icons\<close> are the handles \<open>ExtractIconEx\<close> stored (0 for none), \<open>fallback\<close> the stock icon,
  \<open>ready\<close> the result of \<open>RegisterWindowMessage\<close>. On an error the closed desktop is shown
  for its calls; the program drops it.
\<close>

definition newDesktop ::
  "('a) ui_os_scheme \<Rightarrow> hwnd \<Rightarrow> gostr \<Rightarrow> nat \<times> nat \<Rightarrow> nat \<Rightarrow> u32 \<Rightarrow> desktop + desktop" where
  "newDesktop os hwnd sshPipe icons fallback ready =
     (let d = fresh_desktop hwnd sshPipe (fst icons) (snd icons) fallback in
      if ready = 0 then Inl (close_desktop d)
      else Inr (addTrayIcon os (d\<lparr>d_taskbarReady := ready\<rparr>)))"

section \<open>Notices\<close>

text \<open>
  \<open>notify\<close> looks at \<open>closed\<close> and cleans the text, sends the notice unless the queue is full,
  and posts the message; it runs on transport workers, several at a time, so these are three
  steps. \<open>notify\<close> itself is the three at once. It never waits: a full queue drops the notice.
\<close>

definition notify_check :: "gostr \<Rightarrow> gostr \<Rightarrow> desktop \<Rightarrow> desktop" where
  "notify_check title body d =
     (if d_closed d then d
      else d\<lparr>d_noticers := (cleanUIText title, cleanUIText body) # d_noticers d\<rparr>)"

definition notify_send :: "gostr \<times> gostr \<Rightarrow> desktop \<Rightarrow> desktop" where
  "notify_send notice d =
     (let d = d\<lparr>d_noticers := remove1 notice (d_noticers d)\<rparr> in
      if length (d_notices d) < notice_capacity
      then d\<lparr>d_notices := d_notices d @ [notice], d_noticing := Suc (d_noticing d)\<rparr>
      else d)"

definition notify_post :: "ui_os \<Rightarrow> desktop \<Rightarrow> desktop" where
  "notify_post os d = post os wmTrayNotice (d\<lparr>d_noticing := d_noticing d - 1\<rparr>)"

definition notify :: "ui_os \<Rightarrow> gostr \<Rightarrow> gostr \<Rightarrow> desktop \<Rightarrow> desktop" where
  "notify os title body d =
     (if d_closed d then d
      else
        let notice = (cleanUIText title, cleanUIText body) in
        if length (d_notices d) < notice_capacity
        then post os wmTrayNotice (d\<lparr>d_notices := d_notices d @ [notice]\<rparr>)
        else d)"

definition show_notice :: "gostr \<times> gostr \<Rightarrow> desktop \<Rightarrow> desktop" where
  "show_notice notice d =
     (if d_notesEnabled d \<and> d_trayAdded d
      then call (Tray_notice (copyUIText (replicate 64 0) (fst notice))
                             (copyUIText (replicate 256 0) (snd notice))) d
      else d)"

section \<open>The menu\<close>

definition menuShowKeys :: nat where "menuShowKeys = 1001"
definition menuToggleNotes :: nat where "menuToggleNotes = 1002"
definition menuExit :: nat where "menuExit = 1003"

text \<open>
  Where the menu opens: with the version-4 protocol the packed signed coordinates of the
  message, unless they are the keyboard's \<open>-1\<close>, and otherwise the cursor.
\<close>

definition low_i16 :: "nat \<Rightarrow> i32" where
  "low_i16 n = word_of_int (sint (u16_of n))"

definition menu_point :: "bool \<Rightarrow> u64 \<Rightarrow> i32 \<times> i32 \<Rightarrow> i32 \<times> i32" where
  "menu_point version4 anchor cursor =
     (let p = (if version4 \<and> anchor \<noteq> - 1
               then (low_i16 (unat anchor), low_i16 (unat anchor div 2 ^ 16)) else (0, 0))
      in if \<not> version4 \<or> p = (-1, -1) then cursor else p)"

text \<open>
  \<open>TrackPopupMenu\<close> runs a message loop of its own: \<open>ui_track\<close> gives what the messages
  dispatched meanwhile made of the desktop, and the selected item.
\<close>

record tray_os = ui_os +
  ui_create_menu :: bool
  ui_cursor :: "i32 \<times> i32"
  ui_track :: "desktop \<Rightarrow> desktop \<times> nat"

definition menu_items :: "desktop \<Rightarrow> ui_call list" where
  "menu_items d =
     [Menu_append 0 menuShowKeys (uiString (lit ''Show SSH &keys'' @ ellipsis)),
      Menu_append (if d_notesEnabled d then 8 else 0) menuToggleNotes (uiString (lit ''Signing &notifications'')),
      Menu_append 0x800 0 None,
      Menu_append 0 menuExit (uiString (lit ''E&xit''))]"

definition menu_selected :: "ui_os \<Rightarrow> nat \<Rightarrow> desktop \<Rightarrow> desktop" where
  "menu_selected os selected d =
     (if selected = menuShowKeys then showKeys os d
      else if selected = menuToggleNotes then call Tray_set_focus (d\<lparr>d_notesEnabled := \<not> d_notesEnabled d\<rparr>)
      else if selected = menuExit then post os WM_CLOSE d
      else call Tray_set_focus d)"

definition base_os :: "('a) ui_os_scheme \<Rightarrow> ui_os" where
  "base_os os = ui_os.truncate os"

text \<open>The menu is built and opened; then the selected item is acted on.\<close>

definition open_menu :: "('a) tray_os_scheme \<Rightarrow> u64 \<Rightarrow> desktop \<Rightarrow> desktop" where
  "open_menu os anchor d =
     (let d = fold call (menu_items d) d;
          (x, y) = menu_point (d_trayVersion4 d) anchor (ui_cursor os);
          d = call (Set_foreground (d_hwnd d)) d
      in call (Menu_track x y) d)"

definition showTrayMenu :: "('a) tray_os_scheme \<Rightarrow> u64 \<Rightarrow> desktop \<Rightarrow> desktop" where
  "showTrayMenu os anchor d =
     (if \<not> ui_create_menu os then d
      else
        let (d, selected) = ui_track os (open_menu os anchor d);
            d = post (base_os os) 0 d
        in call Menu_destroy (menu_selected (base_os os) selected d))"

section \<open>Message dispatch\<close>

definition tray_event :: "bool \<Rightarrow> u32 \<Rightarrow> nat" where
  "tray_event version4 lParam = (if version4 then unat lParam mod 2 ^ 16 else unat lParam)"

definition onMessage ::
  "('a) tray_os_scheme \<Rightarrow> hwnd \<Rightarrow> u32 \<Rightarrow> nat \<Rightarrow> u32 \<Rightarrow> desktop \<Rightarrow> bool \<times> desktop" where
  "onMessage os h msg wParam lParam d =
     (if h \<noteq> d_hwnd d then (False, d)
      else if msg = d_taskbarReady d then (True, addTrayIcon os (d\<lparr>d_trayAdded := False\<rparr>))
      else if msg = wmTrayIcon then
        (let event = tray_event (d_trayVersion4 d) lParam in
         (True,
          if event = 0x7b \<or> event = 0x205 then showTrayMenu os (word_of_nat wParam) d
          else if event = 0x400 \<or> event = 0x401 \<or> event = 0x203 then showKeys (base_os os) d
          else d))
      else if msg = wmTrayNotice then
        (case d_notices d of
           [] \<Rightarrow> (True, d)
         | notice # rest \<Rightarrow> (True, show_notice notice (d\<lparr>d_notices := rest\<rparr>)))
      else if msg = wmKeysReady then
        (case d_keysReady d of
           [] \<Rightarrow> (True, d)
         | result # rest \<Rightarrow>
             let d = d\<lparr>d_keysReady := rest, d_loadingKeys := False\<rparr> in
             (True, if d_keyWindow d \<noteq> 0 then displayKeys (base_os os) result d else d))
      else if msg = 0x113 then
        (if wParam = 51 then (True, addTrayIcon os d) else (False, d))
      else (False, d))"

section \<open>The parts the invariants are about\<close>

lemma core_addTrayIcon [simp]: "core (addTrayIcon os d) = core d" "window (addTrayIcon os d) = window d"
  "d_font (addTrayIcon os d) = d_font d"
  by (simp_all add: addTrayIcon_def Let_def desktop_parts)

lemma core_fold_calls [simp]: "core (fold call ks d) = core d" "window (fold call ks d) = window d"
  "d_font (fold call ks d) = d_font d"
  by (induction ks arbitrary: d) simp_all

lemma core_open_menu [simp]: "core (open_menu os anchor d) = core d" "window (open_menu os anchor d) = window d"
  "d_font (open_menu os anchor d) = d_font d"
  by (simp_all add: open_menu_def Let_def split_def)

lemma core_show_notice [simp]: "core (show_notice n d) = core d" "window (show_notice n d) = window d"
  "d_font (show_notice n d) = d_font d"
  by (simp_all add: show_notice_def)

lemma window_post [simp]: "window (post os msg d) = window d" "d_font (post os msg d) = d_font d"
  by (simp_all add: post_def window_def)

lemma loading_post [simp]: "loading_ok (post os msg d) = loading_ok d"
  by (simp add: post_def loading_defs)

text \<open>
  The desktop's invariant: the queues respect their capacity, a listing is under way or on
  its way exactly while the window says so, and the window's handles are all there or all
  gone. A closed desktop has no tray icon and no window.
\<close>

definition desktop_ok :: "desktop \<Rightarrow> bool" where
  "desktop_ok d \<longleftrightarrow> length (d_notices d) \<le> notice_capacity \<and> loading_ok d \<and> window_ok d"

lemma desktop_ok_core:
  assumes "core d' = core d" "window d' = window d" "d_font d' = d_font d"
  shows "desktop_ok d' = desktop_ok d"
  using assms loading_ok_core [OF assms(1)] window_ok_same [OF assms(2,3)]
  by (simp add: desktop_ok_def core_def)

lemma notices_showKeys: "d_notices (showKeys os d) = d_notices d"
proof (cases rule: showKeys_outcome [of os d])
  case no_load
  then show ?thesis by (simp add: core_def)
next
  case (load d')
  then show ?thesis using refreshKeys_core(1) [of d'] by (simp add: core_def)
qed

lemma desktop_ok_showKeys: "desktop_ok d \<Longrightarrow> desktop_ok (showKeys os d)"
  by (simp add: desktop_ok_def showKeys_loading showKeys_window notices_showKeys)

lemma desktop_ok_post: "desktop_ok (post os msg d) = desktop_ok d"
  using window_ok_same [of "post os msg d" d]
  by (simp add: desktop_ok_def) (simp add: post_def)

lemma desktop_ok_call [simp]: "desktop_ok (call k d) = desktop_ok d"
  by (rule desktop_ok_core) simp_all

lemma desktop_ok_menu_selected: "desktop_ok d \<Longrightarrow> desktop_ok (menu_selected os selected d)"
proof -
  assume ok: "desktop_ok d"
  have "desktop_ok (d\<lparr>d_notesEnabled := b\<rparr>) = desktop_ok d" for b
    by (rule desktop_ok_core) (simp_all add: desktop_parts)
  with ok show ?thesis
    by (simp add: menu_selected_def desktop_ok_showKeys desktop_ok_post)
qed

lemma desktop_ok_showTrayMenu:
  assumes "desktop_ok d" "\<And>d'. desktop_ok d' \<Longrightarrow> desktop_ok (fst (ui_track os d'))"
  shows "desktop_ok (showTrayMenu os anchor d)"
proof -
  let ?d = "open_menu os anchor d"
  have "desktop_ok ?d = desktop_ok d" by (rule desktop_ok_core) simp_all
  then have "desktop_ok (post (base_os os) 0 (fst (ui_track os ?d)))"
    using assms by (simp add: desktop_ok_post)
  from desktop_ok_menu_selected [OF this] assms(1) show ?thesis
    by (simp add: showTrayMenu_def Let_def split_def)
qed

text \<open>The parts of \<open>notify\<close> and of the loader keep it, each on its own.\<close>

lemma desktop_ok_notice_parts:
  "desktop_ok d \<Longrightarrow> desktop_ok (notify_check title body d)"
  "desktop_ok d \<Longrightarrow> desktop_ok (notify_send notice d)"
  "desktop_ok d \<Longrightarrow> desktop_ok (notify_post os d)"
  by (simp_all add: notify_check_def notify_send_def notify_post_def Let_def desktop_ok_post)
    (simp_all add: desktop_ok_def loading_defs window_ok_def)

lemma loader_fields:
  "loading_ok d \<Longrightarrow> d_loaders d > 0 \<Longrightarrow>
     d_keysReady d = [] \<and> d_sending d = [] \<and> d_loaders d = 1 \<and> d_loadingKeys d"
  by (cases "d_keysReady d"; cases "d_sending d") (auto simp: loading_defs split: if_splits)

text \<open>A loader about to send finds the one-place channel empty: its result is never dropped.\<close>

lemma sending_fields:
  "loading_ok d \<Longrightarrow> d_sending d = r # rs \<Longrightarrow>
     rs = [] \<and> d_keysReady d = [] \<and> d_loaders d = 0 \<and> d_loadingKeys d"
  by (cases "d_keysReady d") (auto simp: loading_defs split: if_splits)

lemma loader_send_eq:
  "loading_ok d \<Longrightarrow> d_sending d = r # rs \<Longrightarrow>
     loader_send d = d\<lparr>d_sending := [], d_keysReady := [r], d_readying := Suc (d_readying d)\<rparr>"
  using sending_fields [of d r rs] by (simp add: loader_send_def Let_def)

lemma desktop_ok_loader_parts:
  "desktop_ok d \<Longrightarrow> d_loaders d > 0 \<Longrightarrow> desktop_ok (loader_check listed d)"
  "desktop_ok d \<Longrightarrow> desktop_ok (loader_send d)"
  "desktop_ok d \<Longrightarrow> desktop_ok (loader_post os d)"
proof -
  assume ok: "desktop_ok d"
  then have l: "loading_ok d" by (simp add: desktop_ok_def)
  show "d_loaders d > 0 \<Longrightarrow> desktop_ok (loader_check listed d)"
    using ok loader_fields [OF l] by (auto simp: loader_check_def Let_def desktop_ok_def loading_defs window_ok_def)
  show "desktop_ok (loader_send d)"
  proof (cases "d_sending d")
    case Nil
    then show ?thesis using ok by (simp add: loader_send_def)
  next
    case (Cons r rs)
    show ?thesis
      unfolding loader_send_eq [OF l Cons]
      using ok sending_fields [OF l Cons] by (simp add: desktop_ok_def loading_defs window_ok_def)
  qed
  show "desktop_ok (loader_post os d)"
    using ok by (simp add: loader_post_def desktop_ok_post) (simp add: desktop_ok_def loading_defs window_ok_def)
qed

lemma onMessage_notice:
  "desktop_ok d \<Longrightarrow> d_notices d = n # rest \<Longrightarrow> desktop_ok (show_notice n (d\<lparr>d_notices := rest\<rparr>))"
proof -
  assume ok: "desktop_ok d" "d_notices d = n # rest"
  have "desktop_ok (show_notice n (d\<lparr>d_notices := rest\<rparr>)) = desktop_ok (d\<lparr>d_notices := rest\<rparr>)"
    by (rule desktop_ok_core) simp_all
  with ok show ?thesis by (simp add: desktop_ok_def loading_defs window_ok_def)
qed

lemma onMessage_keys:
  assumes "desktop_ok d" "d_keysReady d = result # rest"
  defines "d1 \<equiv> d\<lparr>d_keysReady := rest, d_loadingKeys := False\<rparr>"
  shows "desktop_ok (if d_keyWindow d1 \<noteq> 0 then displayKeys os result d1 else d1)"
proof -
  have "rest = []" "d_loaders d = 0" "d_sending d = []"
    using assms(1,2) by (auto simp: desktop_ok_def loading_defs split: if_splits)
  then have "desktop_ok d1"
    using assms(1) by (simp add: d1_def desktop_ok_def loading_defs window_ok_def)
  moreover have "desktop_ok (displayKeys os result d1) = desktop_ok d1"
    by (rule desktop_ok_core) simp_all
  ultimately show ?thesis by simp
qed

text \<open>Every message to the window keeps the invariant.\<close>

lemma onMessage_ok:
  assumes "desktop_ok d" "\<And>d'. desktop_ok d' \<Longrightarrow> desktop_ok (fst (ui_track os d'))"
  shows "desktop_ok (snd (onMessage os h msg wParam lParam d))"
proof -
  have "desktop_ok (addTrayIcon os d) = desktop_ok d" by (rule desktop_ok_core) simp_all
  moreover have "desktop_ok (addTrayIcon os (d\<lparr>d_trayAdded := False\<rparr>)) = desktop_ok d"
  proof -
    have "core (d\<lparr>d_trayAdded := False\<rparr>) = core d" "window (d\<lparr>d_trayAdded := False\<rparr>) = window d"
      by (simp_all add: desktop_parts)
    then show ?thesis by (intro desktop_ok_core) simp_all
  qed
  ultimately show ?thesis
    using assms(1) desktop_ok_showTrayMenu [OF assms] desktop_ok_showKeys [OF assms(1)]
      onMessage_notice [OF assms(1)] onMessage_keys [OF assms(1)]
    by (simp add: onMessage_def Let_def split: list.split)
qed

lemma close_desktop_core:
  "core (close_desktop d) = core (d\<lparr>d_closed := True\<rparr>)"
  by (simp add: close_desktop_def Let_def) (simp add: core_def destroy_key_window_def nc_destroy_def Let_def)

section \<open>Closing\<close>

lemma close_desktop_idem: "close_desktop (close_desktop d) = close_desktop d"
proof -
  have "d_closed (close_desktop d)"
    using close_desktop_core [of d] by (simp add: core_def)
  then show ?thesis by (simp add: close_desktop_def)
qed

text \<open>
  The calls that close the desktop, in order: the timer, the tray icon when there is one, the
  key window with its font, the window class, and each icon the program owns, once.
\<close>

definition closing_calls :: "desktop \<Rightarrow> ui_call list" where
  "closing_calls d =
     Kill_timer # (if d_trayAdded d then [Tray_delete] else [])
     @ (if d_keyWindow d \<noteq> 0
        then Destroy_window (d_keyWindow d) # (if d_font d \<noteq> 0 then [Delete_font (d_font d)] else []) else [])
     @ (if d_keyClass d then [Unregister_keys_class] else [])
     @ (if d_ownedIcon d \<noteq> 0 then [Destroy_icon (d_ownedIcon d)] else [])
     @ (if d_ownedLarge d \<noteq> 0 \<and> d_ownedLarge d \<noteq> d_ownedIcon d then [Destroy_icon (d_ownedLarge d)] else [])"

lemma destroy_key_window_calls:
  "h \<noteq> 0 \<Longrightarrow> d_calls (destroy_key_window h d)
     = d_calls d @ Destroy_window h # (if d_font d \<noteq> 0 then [Delete_font (d_font d)] else [])"
  "d_ownedIcon (destroy_key_window h d) = d_ownedIcon d" "d_ownedLarge (destroy_key_window h d) = d_ownedLarge d"
  "d_trayAdded (destroy_key_window h d) = d_trayAdded d" "d_keyClass (destroy_key_window h d) = d_keyClass d"
  by (simp_all add: destroy_key_window_def nc_destroy_def Let_def)

lemma close_desktop_calls: "\<not> d_closed d \<Longrightarrow> d_calls (close_desktop d) = d_calls d @ closing_calls d"
  by (simp add: close_desktop_def closing_calls_def Let_def destroy_key_window_calls)

lemma close_desktop_tray: "\<not> d_closed d \<Longrightarrow> d_trayAdded (close_desktop d) = False"
  by (simp add: close_desktop_def Let_def destroy_key_window_calls)

lemma close_desktop_window:
  assumes "\<not> d_closed d" "window_ok d"
  shows "d_keyWindow (close_desktop d) = 0 \<and> window_ok (close_desktop d)"
proof -
  define d1 where "d1 = (if d_trayAdded d
      then (call Tray_delete (call Kill_timer (d\<lparr>d_closed := True\<rparr>)))\<lparr>d_trayAdded := False\<rparr>
      else call Kill_timer (d\<lparr>d_closed := True\<rparr>))"
  define d2 where "d2 = (if d_keyWindow d1 \<noteq> 0 then destroy_key_window (d_keyWindow d1) d1 else d1)"
  have "window d1 = window d" "d_font d1 = d_font d" by (simp_all add: d1_def window_def)
  then have "window_ok d1" using assms(2) window_ok_same by blast
  then have "d_keyWindow d2 = 0 \<and> window_ok d2"
    by (simp add: d2_def destroy_key_window_def) (simp add: nc_destroy_def Let_def)
  moreover have "window (close_desktop d) = window d2" "d_font (close_desktop d) = d_font d2"
    using assms(1) by (simp_all add: close_desktop_def Let_def d1_def [symmetric] d2_def)
  ultimately show ?thesis
    using window_ok_same [of "close_desktop d" d2] by (simp add: window_def)
qed

lemma desktop_ok_close: "desktop_ok d \<Longrightarrow> desktop_ok (close_desktop d)"
proof (cases "d_closed d")
  case True
  then show "desktop_ok d \<Longrightarrow> ?thesis" by (simp add: close_desktop_def)
next
  case False
  then show "desktop_ok d \<Longrightarrow> ?thesis"
    using close_desktop_window [OF False] close_desktop_core [of d]
    by (auto simp: desktop_ok_def loading_defs core_def split: if_splits)
qed

section \<open>The machine\<close>

text \<open>
  The UI thread dispatches messages one at a time; transport workers inside \<open>notify\<close> and the
  loading goroutines take their steps at any moment. A menu's nested message loop is other
  steps between its opening and \<open>choose\<close>. \<open>reliable\<close> says that \<open>PostMessage\<close> never fails.
\<close>

definition calm :: "tray_os \<Rightarrow> bool" where
  "calm os \<longleftrightarrow> (\<forall>d. fst (ui_track os d) = d)"

inductive desktop_step :: "bool \<Rightarrow> desktop \<Rightarrow> desktop \<Rightarrow> bool" for reliable :: bool where
  notify_checked: "desktop_step reliable d (notify_check title body d)"
| notify_sent: "notice \<in> set (d_noticers d) \<Longrightarrow> desktop_step reliable d (notify_send notice d)"
| notify_posted: "reliable \<longrightarrow> ui_post_works os \<Longrightarrow> d_noticing d > 0 \<Longrightarrow>
     desktop_step reliable d (notify_post os d)"
| loader_checked: "d_loaders d > 0 \<Longrightarrow> desktop_step reliable d (loader_check listed d)"
| loader_sent: "d_sending d \<noteq> [] \<Longrightarrow> desktop_step reliable d (loader_send d)"
| loader_posted: "reliable \<longrightarrow> ui_post_works os \<Longrightarrow> d_readying d > 0 \<Longrightarrow>
     desktop_step reliable d (loader_post os d)"
| dispatched: "calm os \<Longrightarrow> d_posted d = m # ms \<Longrightarrow>
     desktop_step reliable d (snd (onMessage os (d_hwnd d) m wParam lParam (d\<lparr>d_posted := ms\<rparr>)))"
| sent: "calm os \<Longrightarrow> m \<notin> {wmTrayNotice, wmKeysReady} \<Longrightarrow>
     desktop_step reliable d (snd (onMessage os (d_hwnd d) m wParam lParam d))"
| key_window: "d_keyWindow d \<noteq> 0 \<Longrightarrow>
     desktop_step reliable d (snd (keysWndProc uos (d_keyWindow d) m wParam rect d))"
| show_keys: "desktop_step reliable d (showKeys uos d)"
| choose: "desktop_step reliable d (menu_selected uos selected d)"
| shut: "desktop_step reliable d (close_desktop d)"

definition init_desktop :: "desktop \<Rightarrow> bool" where
  "init_desktop d \<longleftrightarrow> (\<exists>(os :: ui_os) hwnd sshPipe icons fallback ready.
     newDesktop os hwnd sshPipe icons fallback ready = Inr d \<and> unat ready \<ge> 0xC000)"

lemma desktop_ok_keysWndProc:
  assumes "desktop_ok d" "d_keyWindow d \<noteq> 0"
  shows "desktop_ok (snd (keysWndProc os (d_keyWindow d) msg wParam rect d))"
  using keysWndProc_ok [of d "d_keyWindow d" msg os wParam rect] assms
  by (simp add: desktop_ok_def keysWndProc_notices)

lemma desktop_ok_posted: "desktop_ok (d\<lparr>d_posted := ms\<rparr>) = desktop_ok d"
  by (simp add: desktop_ok_def loading_defs window_ok_def)

lemma desktop_ok_step: "desktop_step reliable d d' \<Longrightarrow> desktop_ok d \<Longrightarrow> desktop_ok d'"
proof (induction rule: desktop_step.induct)
  case (dispatched os d m ms wParam lParam)
  then show ?case by (intro onMessage_ok) (simp_all add: desktop_ok_posted calm_def)
next
  case (sent os m d wParam lParam)
  then show ?case by (intro onMessage_ok) (simp_all add: calm_def)
qed (simp_all add: desktop_ok_notice_parts desktop_ok_loader_parts desktop_ok_keysWndProc desktop_ok_showKeys
    desktop_ok_menu_selected desktop_ok_close)

lemma init_desktop_ok: "init_desktop d \<Longrightarrow> desktop_ok d"
proof -
  assume "init_desktop d"
  then obtain os :: ui_os and hwnd sshPipe icons fallback ready where
    d: "d = addTrayIcon os ((fresh_desktop hwnd sshPipe (fst icons) (snd icons) fallback)\<lparr>d_taskbarReady := ready\<rparr>)"
    (is "d = addTrayIcon os ?f")
    by (auto simp: init_desktop_def newDesktop_def Let_def split: if_splits)
  have "desktop_ok ?f"
    by (simp add: desktop_ok_def fresh_desktop_def loading_defs window_ok_def notice_capacity_def)
  moreover have "desktop_ok d = desktop_ok ?f" unfolding d by (rule desktop_ok_core) simp_all
  ultimately show ?thesis by simp
qed

interpretation desktop_machine: machine_invariant init_desktop "desktop_step reliable" desktop_ok
  for reliable
  by unfold_locales (blast intro: init_desktop_ok desktop_ok_step)+

text \<open>The uninterrupted calls are runs of the machine.\<close>

lemma notify_run:
  assumes "reliable \<longrightarrow> ui_post_works os"
  shows "(desktop_step reliable)\<^sup>*\<^sup>* d (notify os title body d)"
proof -
  let ?n = "(cleanUIText title, cleanUIText body)"
  let ?d1 = "notify_check title body d" and ?d2 = "notify_send ?n (notify_check title body d)"
  show ?thesis
  proof (cases "d_closed d")
    case True
    then show ?thesis by (simp add: notify_def)
  next
    case False
    have s: "desktop_step reliable d ?d1" by (rule notify_checked)
    moreover have "desktop_step reliable ?d1 ?d2"
      by (rule notify_sent) (simp add: notify_check_def False)
    ultimately have s: "(desktop_step reliable)\<^sup>*\<^sup>* d ?d2" by simp
    show ?thesis
    proof (cases "length (d_notices d) < notice_capacity")
      case True
      have "desktop_step reliable ?d2 (notify_post os ?d2)"
        using assms by (rule notify_posted)
          (use False True in \<open>simp add: notify_check_def notify_send_def Let_def\<close>)
      moreover have "notify_post os ?d2 = notify os title body d"
        using False True
        by (cases d) (simp add: notify_check_def notify_send_def notify_post_def notify_def Let_def)
      ultimately show ?thesis using s by (auto intro: rtranclp.rtrancl_into_rtrancl)
    next
      case no_room: False
      have "?d2 = notify os title body d"
        using False no_room by (cases d) (simp add: notify_check_def notify_send_def notify_def Let_def)
      with s show ?thesis by simp
    qed
  qed
qed

lemma loader_done_run:
  assumes "reliable \<longrightarrow> ui_post_works os" "desktop_ok d" "d_loaders d > 0"
  shows "(desktop_step reliable)\<^sup>*\<^sup>* d (loader_done os listed d)"
proof -
  have l: "loading_ok d" using assms(2) by (simp add: desktop_ok_def)
  note f = loader_fields [OF l assms(3)]
  let ?d1 = "loader_check listed d" and ?d2 = "loader_send (loader_check listed d)"
  have s1: "desktop_step reliable d ?d1" using assms(3) by (rule loader_checked)
  show ?thesis
  proof (cases "d_closed d")
    case True
    then have "?d1 = loader_done os listed d" by (simp add: loader_check_def loader_done_def Let_def)
    with s1 show ?thesis by auto
  next
    case False
    have s2: "desktop_step reliable ?d1 ?d2"
      by (rule loader_sent) (use False in \<open>simp add: loader_check_def Let_def\<close>)
    have s3: "desktop_step reliable ?d2 (loader_post os ?d2)"
      using assms(1) by (rule loader_posted) (use False f in \<open>simp add: loader_check_def loader_send_def Let_def\<close>)
    have "loader_post os ?d2 = loader_done os listed d"
      using False f
      by (cases d) (simp add: loader_check_def loader_send_def loader_post_def loader_done_def Let_def)
    with s1 s2 s3 show ?thesis by (metis r_into_rtranclp rtranclp.rtrancl_into_rtrancl)
  qed
qed

end
