(* ===== verification/DesktopQueue.thy ===== *)
theory DesktopQueue
  imports Desktop
begin

text \<open>
  The desktop's queues and the messages that announce their entries: while \<open>PostMessage\<close>
  works, every queued notice and every finished listing has a message on its way, or is
  about to get one; a lost message leaves the key window loading for good.
\<close>

section \<open>Properties of the queues\<close>

text \<open>
  A property of the queues, the loader and the posted messages that survives a listing being
  started and unrelated messages being posted: everything the UI thread does, other than
  dispatching the two messages of the queues, keeps it.
\<close>

locale desktop_property =
  fixes P :: "desktop \<Rightarrow> bool"
  assumes P_core: "core d' = core d \<Longrightarrow> P d \<Longrightarrow> P d'"
    and P_refresh: "P d \<Longrightarrow> P (refreshKeys d)"
    and P_post: "m \<notin> {wmTrayNotice, wmKeysReady} \<Longrightarrow> P d \<Longrightarrow> P (post os m d)"
begin

lemma P_call [simp]: "P (call k d) = P d"
  using P_core [of "call k d" d] P_core [of d "call k d"] by auto

lemma P_showKeys: "P d \<Longrightarrow> P (showKeys os d)"
proof (cases rule: showKeys_outcome [of os d])
  case no_load
  then show "P d \<Longrightarrow> ?thesis" using P_core by blast
next
  case (load d')
  then show "P d \<Longrightarrow> ?thesis" using P_refresh P_core by metis
qed

lemma P_menu_selected: "P d \<Longrightarrow> P (menu_selected os selected d)"
proof -
  assume d: "P d"
  then have "P (d\<lparr>d_notesEnabled := b\<rparr>)" for b
    by (rule P_core [rotated]) (simp add: core_def)
  moreover have "WM_CLOSE \<notin> {wmTrayNotice, wmKeysReady}"
    by (simp add: WM_CLOSE_def wmTrayNotice_def wmKeysReady_def)
  ultimately show ?thesis
    using d P_post by (simp add: menu_selected_def P_showKeys)
qed

lemma P_showTrayMenu: "calm os \<Longrightarrow> P d \<Longrightarrow> P (showTrayMenu os anchor d)"
proof -
  assume calm: "calm os" and d: "P d"
  then have "P (open_menu os anchor d)" using P_core [of "open_menu os anchor d" d] by simp
  moreover have "0 \<notin> {wmTrayNotice, wmKeysReady}" by (simp add: wmTrayNotice_def wmKeysReady_def)
  ultimately have "P (post (base_os os) 0 (fst (ui_track os (open_menu os anchor d))))"
    using calm P_post by (simp add: calm_def)
  then show ?thesis
    using d by (simp add: showTrayMenu_def Let_def split_def P_menu_selected)
qed

lemma P_other_message:
  assumes "P d" "calm os" "m \<notin> {wmTrayNotice, wmKeysReady}"
  shows "P (snd (onMessage os h m wParam lParam d))"
proof -
  have "core (d\<lparr>d_trayAdded := False\<rparr>) = core d" by (simp add: core_def)
  then have "P (addTrayIcon os d)" "P (addTrayIcon os (d\<lparr>d_trayAdded := False\<rparr>))"
    using assms(1) P_core [of "addTrayIcon os d" d] P_core [of "addTrayIcon os (d\<lparr>d_trayAdded := False\<rparr>)" d]
    by simp_all
  then show ?thesis
    using assms P_showTrayMenu [OF assms(2,1)] by (simp add: onMessage_def Let_def P_showKeys)
qed

lemma P_keysWndProc: "P d \<Longrightarrow> P (snd (keysWndProc os h m wParam rect d))"
  using keysWndProc_core [of os h m wParam rect d] P_core P_refresh by blast

end

section \<open>Announced entries\<close>

text \<open>No message of the loader without its result, and, with reliable posting, no entry without its message.\<close>

definition messages_ok :: "desktop \<Rightarrow> bool" where
  "messages_ok d \<longleftrightarrow> count_list (d_posted d) wmKeysReady + d_readying d \<le> length (d_keysReady d)"

definition queue_ok :: "desktop \<Rightarrow> bool" where
  "queue_ok d \<longleftrightarrow>
     length (d_notices d) \<le> count_list (d_posted d) wmTrayNotice + d_noticing d
     \<and> length (d_keysReady d) \<le> count_list (d_posted d) wmKeysReady + d_readying d
     \<and> 0xC000 \<le> unat (d_taskbarReady d)"

lemma wm_differ [simp]: "wmTrayNotice \<noteq> wmKeysReady" "wmKeysReady \<noteq> wmTrayNotice"
  by (simp_all add: wmTrayNotice_def wmKeysReady_def)

interpretation messages: desktop_property messages_ok
proof unfold_locales
  show "messages_ok d \<Longrightarrow> messages_ok (refreshKeys d)" for d
    using refreshKeys_core(1) [of d] by (simp add: messages_ok_def core_def)
qed (auto simp: messages_ok_def core_def post_def)

interpretation queue: desktop_property queue_ok
proof unfold_locales
  show "queue_ok d \<Longrightarrow> queue_ok (refreshKeys d)" for d
    using refreshKeys_core(1) [of d] by (simp add: queue_ok_def core_def)
qed (auto simp: queue_ok_def core_def post_def)

text \<open>The window's own messages are never the taskbar's: those start at \<open>0xC000\<close>.\<close>

lemma not_taskbar: "queue_ok d \<Longrightarrow> d_taskbarReady d \<noteq> wmTrayNotice \<and> d_taskbarReady d \<noteq> wmKeysReady"
proof -
  assume "queue_ok d"
  then have "0xC000 \<le> unat (d_taskbarReady d)" by (simp add: queue_ok_def)
  moreover have "unat wmTrayNotice < 0xC000" "unat wmKeysReady < 0xC000"
    by (simp_all add: wmTrayNotice_def wmKeysReady_def)
  ultimately show ?thesis by auto
qed

text \<open>A notice's message takes the oldest notice out of the queue.\<close>

lemma onMessage_takes_notice:
  assumes "d_taskbarReady d \<noteq> wmTrayNotice"
  shows "onMessage os (d_hwnd d) wmTrayNotice wParam lParam d =
    (True, case d_notices d of [] \<Rightarrow> d | n # ns \<Rightarrow> show_notice n (d\<lparr>d_notices := ns\<rparr>))"
  using assms by (auto simp: onMessage_def wmTrayNotice_def wmTrayIcon_def split: list.split)

text \<open>The message of a finished listing ends the loading state.\<close>

lemma onMessage_takes_keys:
  assumes "d_taskbarReady d \<noteq> wmKeysReady" "d_keysReady d = result # rest"
  shows "core (snd (onMessage os (d_hwnd d) wmKeysReady wParam lParam d)) =
    core (d\<lparr>d_keysReady := rest, d_loadingKeys := False\<rparr>)"
  using assms by (simp add: onMessage_def Let_def wmTrayNotice_def wmTrayIcon_def wmKeysReady_def)

lemma onMessage_no_keys:
  "d_taskbarReady d \<noteq> wmKeysReady \<Longrightarrow> d_keysReady d = [] \<Longrightarrow>
     snd (onMessage os (d_hwnd d) wmKeysReady wParam lParam d) = d"
  by (simp add: onMessage_def wmTrayNotice_def wmTrayIcon_def wmKeysReady_def)

text \<open>What the two messages of the queues leave of the core.\<close>

lemma dispatch_cases:
  fixes os :: "('a) tray_os_scheme" and wParam :: nat and lParam :: u32
  obtains (tray) "core (snd (onMessage os (d_hwnd d) m wParam lParam d)) = core d"
      "m \<in> {wmTrayNotice, wmKeysReady}" "d_taskbarReady d = m \<or> m = wmTrayNotice \<and> d_notices d = []
        \<or> m = wmKeysReady \<and> d_keysReady d = []"
  | (notice) n ns where "m = wmTrayNotice" "d_notices d = n # ns"
      "core (snd (onMessage os (d_hwnd d) m wParam lParam d)) = core (d\<lparr>d_notices := ns\<rparr>)"
  | (keys) r rs where "m = wmKeysReady" "d_keysReady d = r # rs"
      "core (snd (onMessage os (d_hwnd d) m wParam lParam d)) = core (d\<lparr>d_keysReady := rs, d_loadingKeys := False\<rparr>)"
  | (other) "m \<notin> {wmTrayNotice, wmKeysReady}"
proof -
  have "core (d\<lparr>d_trayAdded := False\<rparr>) = core d" by (simp add: core_def)
  then have tb: "core (snd (onMessage os (d_hwnd d) m wParam lParam d)) = core d" if "d_taskbarReady d = m"
    using that by (simp add: onMessage_def)
  consider "d_taskbarReady d = m" "m \<in> {wmTrayNotice, wmKeysReady}"
    | (n) "d_taskbarReady d \<noteq> m" "m = wmTrayNotice" | (k) "d_taskbarReady d \<noteq> m" "m = wmKeysReady"
    | "m \<notin> {wmTrayNotice, wmKeysReady}" by auto
  then show ?thesis
  proof cases
    case n
    then show ?thesis
      using onMessage_takes_notice [of d os wParam lParam] tray notice by (cases "d_notices d") auto
  next
    case k
    then show ?thesis
      using onMessage_no_keys [of d os wParam lParam] onMessage_takes_keys [of d _ _ os wParam lParam] tray keys
      by (cases "d_keysReady d") auto
  qed (use tb tray other in auto)
qed

lemma messages_ok_dispatched:
  assumes ok: "messages_ok d" and "calm os" and q: "d_posted d = m # ms"
  shows "messages_ok (snd (onMessage os (d_hwnd d) m wParam lParam (d\<lparr>d_posted := ms\<rparr>)))"
proof -
  let ?d = "d\<lparr>d_posted := ms\<rparr>"
  have less: "messages_ok ?d" using ok q by (auto simp: messages_ok_def split: if_splits)
  show ?thesis
  proof (cases rule: dispatch_cases [of os ?d m wParam lParam])
    case tray
    from messages.P_core [OF tray(1) less] show ?thesis by simp
  next
    case (notice n ns)
    have "messages_ok (?d\<lparr>d_notices := ns\<rparr>)" using less by (simp add: messages_ok_def)
    from messages.P_core [OF notice(3) this] show ?thesis by simp
  next
    case (keys r rs)
    have "messages_ok (?d\<lparr>d_keysReady := rs, d_loadingKeys := False\<rparr>)"
      using ok q keys(1,2) by (simp add: messages_ok_def)
    from messages.P_core [OF keys(3) this] show ?thesis by simp
  next
    case other
    from messages.P_other_message [OF less assms(2) other] show ?thesis .
  qed
qed

lemma queue_ok_dispatched:
  assumes ok: "queue_ok d" and "calm os" and q: "d_posted d = m # ms"
  shows "queue_ok (snd (onMessage os (d_hwnd d) m wParam lParam (d\<lparr>d_posted := ms\<rparr>)))"
proof -
  let ?d = "d\<lparr>d_posted := ms\<rparr>"
  have tb: "d_taskbarReady ?d \<notin> {wmTrayNotice, wmKeysReady}" using not_taskbar [OF ok] by simp
  show ?thesis
  proof (cases rule: dispatch_cases [of os ?d m wParam lParam])
    case tray
    then have "queue_ok ?d" using ok q tb by (auto simp: queue_ok_def)
    from queue.P_core [OF tray(1) this] show ?thesis by simp
  next
    case (notice n ns)
    have "queue_ok (?d\<lparr>d_notices := ns\<rparr>)" using ok q notice(1,2) by (simp add: queue_ok_def)
    from queue.P_core [OF notice(3) this] show ?thesis by simp
  next
    case (keys r rs)
    have "queue_ok (?d\<lparr>d_keysReady := rs, d_loadingKeys := False\<rparr>)"
      using ok q keys(1,2) by (simp add: queue_ok_def)
    from queue.P_core [OF keys(3) this] show ?thesis by simp
  next
    case other
    then have "queue_ok ?d" using ok q by (simp add: queue_ok_def)
    from queue.P_other_message [OF this assms(2) other] show ?thesis .
  qed
qed

text \<open>Closing changes the flag only, as far as these properties see.\<close>

lemma close_keeps: "core d' = core (d\<lparr>d_closed := True\<rparr>) \<Longrightarrow> messages_ok d' = messages_ok d \<and> queue_ok d' = queue_ok d"
  by (simp add: messages_ok_def queue_ok_def core_def)

lemma messages_ok_step: "desktop_step reliable d d' \<Longrightarrow> messages_ok d \<Longrightarrow> messages_ok d'"
proof (induction rule: desktop_step.induct)
  case (loader_sent d)
  then show ?case by (auto simp: loader_send_def Let_def messages_ok_def split: list.split)
next
  case (shut d)
  then show ?case using close_keeps [OF close_desktop_core] by simp
qed (simp_all add: messages.P_showKeys messages.P_menu_selected messages.P_keysWndProc messages.P_other_message
    messages_ok_dispatched,
  auto simp: messages_ok_def notify_check_def notify_send_def notify_post_def loader_check_def
    loader_post_def post_def Let_def)

lemma queue_ok_step:
  assumes "desktop_step True d d'"
  shows "queue_ok d \<Longrightarrow> queue_ok d'"
  using assms
proof (induction rule: desktop_step.induct)
  case (loader_sent d)
  then show ?case by (auto simp: loader_send_def Let_def queue_ok_def split: list.split)
next
  case (shut d)
  then show ?case using close_keeps [OF close_desktop_core] by simp
qed (simp_all add: queue.P_showKeys queue.P_menu_selected queue.P_keysWndProc queue.P_other_message
    queue_ok_dispatched,
  simp_all add: queue_ok_def notify_check_def notify_send_def notify_post_def loader_check_def
    loader_post_def post_def Let_def)

lemma init_desktop_fields:
  assumes "init_desktop d"
  shows "core d = (False, [], [], False, 0, [], d_taskbarReady d, d_hwnd d, d_pipe d, [], 0, [], 0)"
    and "unat (d_taskbarReady d) \<ge> 0xC000"
proof -
  from assms obtain os :: ui_os and hwnd sshPipe icons fallback ready where
    d: "d = addTrayIcon os ((fresh_desktop hwnd sshPipe (fst icons) (snd icons) fallback)\<lparr>d_taskbarReady := ready\<rparr>)"
      (is "d = addTrayIcon os ?f")
    and r: "unat ready \<ge> 0xC000"
    by (auto simp: init_desktop_def newDesktop_def Let_def split: if_splits)
  have "core d = core ?f" unfolding d by simp
  then show "core d = (False, [], [], False, 0, [], d_taskbarReady d, d_hwnd d, d_pipe d, [], 0, [], 0)"
    "unat (d_taskbarReady d) \<ge> 0xC000"
    using r by (simp_all add: core_def fresh_desktop_def)
qed

interpretation announced_desktop: machine_invariant init_desktop "desktop_step reliable" messages_ok
  for reliable
proof unfold_locales
  show "messages_ok d" if "init_desktop d" for d
    using init_desktop_fields [OF that] by (simp add: messages_ok_def core_def)
qed (rule messages_ok_step)

interpretation reliable_desktop: machine_invariant init_desktop "desktop_step True" queue_ok
proof unfold_locales
  show "queue_ok d" if "init_desktop d" for d
    using init_desktop_fields [OF that] by (simp add: queue_ok_def core_def)
qed (rule queue_ok_step)

section \<open>A notice on its way to the tray\<close>

lemma notice_is_shown:
  fixes tos :: "('a) tray_os_scheme" and wParam :: nat and lParam :: u32 and os :: ui_os and title body :: gostr
  assumes "queue_ok d" "\<not> d_closed d" "d_notices d = []" "d_notesEnabled d" "d_trayAdded d"
  defines "d1 \<equiv> notify os title body d"
  shows "d_notices d1 = [(cleanUIText title, cleanUIText body)]"
    and "d_calls (snd (onMessage tos (d_hwnd d1) wmTrayNotice wParam lParam d1)) = d_calls d
      @ [Tray_notice (copyUIText (replicate 64 0) (cleanUIText title))
                     (copyUIText (replicate 256 0) (cleanUIText body))]"
proof -
  have f: "d_notices d1 = [(cleanUIText title, cleanUIText body)]" "d_taskbarReady d1 = d_taskbarReady d"
    "d_calls d1 = d_calls d" "d_notesEnabled d1" "d_trayAdded d1"
    using assms(2-5) by (simp_all add: d1_def notify_def Let_def post_def notice_capacity_def)
  then show "d_notices d1 = [(cleanUIText title, cleanUIText body)]" by simp
  have "d_taskbarReady d1 \<noteq> wmTrayNotice" using not_taskbar [OF assms(1)] f(2) by simp
  from onMessage_takes_notice [OF this, of tos wParam lParam] f
  show "d_calls (snd (onMessage tos (d_hwnd d1) wmTrayNotice wParam lParam d1)) = d_calls d
      @ [Tray_notice (copyUIText (replicate 64 0) (cleanUIText title))
                     (copyUIText (replicate 256 0) (cleanUIText body))]"
    by (simp add: show_notice_def)
qed

section \<open>A lost message\<close>

text \<open>
  Loading, with no goroutine left to finish it and no message on its way: no step leads out.
\<close>

definition stuck_loading :: "desktop \<Rightarrow> bool" where
  "stuck_loading d \<longleftrightarrow> d_loadingKeys d \<and> d_loaders d = 0 \<and> d_sending d = [] \<and> d_readying d = 0
     \<and> wmKeysReady \<notin> set (d_posted d)"

interpretation stuck_window: desktop_property stuck_loading
  by unfold_locales (auto simp: stuck_loading_def core_def refreshKeys_def post_def)

lemma stuck_dispatched:
  assumes s: "stuck_loading d" and "calm os" "m \<noteq> wmKeysReady"
  shows "stuck_loading (snd (onMessage os (d_hwnd d) m wParam lParam d))"
proof (cases rule: dispatch_cases [of os d m wParam lParam])
  case tray
  from stuck_window.P_core [OF tray(1) s] show ?thesis .
next
  case (notice n ns)
  have "stuck_loading (d\<lparr>d_notices := ns\<rparr>)" using s by (simp add: stuck_loading_def)
  from stuck_window.P_core [OF notice(3) this] show ?thesis .
next
  case other
  from stuck_window.P_other_message [OF s assms(2) other] show ?thesis .
qed (use assms in simp)

lemma stuck_step: "desktop_step reliable d d' \<Longrightarrow> stuck_loading d \<Longrightarrow> stuck_loading d'"
proof (induction rule: desktop_step.induct)
  case (dispatched os d m ms wParam lParam)
  then have "stuck_loading (d\<lparr>d_posted := ms\<rparr>)" "m \<noteq> wmKeysReady"
    by (auto simp: stuck_loading_def)
  with dispatched(1) stuck_dispatched [of "d\<lparr>d_posted := ms\<rparr>" os m wParam lParam] show ?case by simp
next
  case (shut d)
  have "stuck_loading (d\<lparr>d_closed := True\<rparr>)" using shut by (simp add: stuck_loading_def)
  from stuck_window.P_core [OF close_desktop_core this] show ?case .
qed (simp_all add: stuck_window.P_showKeys stuck_window.P_menu_selected stuck_window.P_keysWndProc
    stuck_window.P_other_message,
  simp_all add: stuck_loading_def notify_check_def notify_send_def notify_post_def post_def Let_def)

interpretation stuck: monotone_flag "desktop_step reliable" stuck_loading
  for reliable
  by unfold_locales (rule stuck_step)

text \<open>A loader whose message is lost leads there.\<close>

lemma loading_posts_nothing:
  "loading_ok d \<Longrightarrow> messages_ok d \<Longrightarrow> d_loaders d > 0 \<Longrightarrow> d_readying d = 0 \<and> wmKeysReady \<notin> set (d_posted d)"
  using loader_fields [of d] by (simp add: messages_ok_def count_list_0_iff)

lemma lost_message_sticks:
  assumes "desktop_ok d" "messages_ok d" "\<not> ui_post_works os"
  shows "d_readying d > 0 \<Longrightarrow> stuck_loading (loader_post os d)"
    and "d_loaders d > 0 \<Longrightarrow> stuck_loading (loader_done os listed d)"
proof -
  have l: "loading_ok d" using assms(1) by (simp add: desktop_ok_def)
  show "stuck_loading (loader_post os d)" if r: "d_readying d > 0"
  proof -
    from l have one: "length (d_keysReady d) \<le> 1" "d_keysReady d \<noteq> [] \<Longrightarrow> d_loadingKeys d \<and> d_loaders d = 0 \<and> d_sending d = []"
      by (cases "d_keysReady d"; auto simp: loading_defs split: if_splits)+
    with assms(2) r have "d_keysReady d \<noteq> []" "d_readying d = 1" "count_list (d_posted d) wmKeysReady = 0"
      by (auto simp: messages_ok_def)
    with one(2) assms(3) show ?thesis
      by (simp add: stuck_loading_def loader_post_def post_def count_list_0_iff)
  qed
  show "stuck_loading (loader_done os listed d)" if "d_loaders d > 0"
    using loader_fields [OF l that] loading_posts_nothing [OF l assms(2) that] assms(3)
    by (simp add: stuck_loading_def loader_done_def Let_def post_def)
qed

end
