(* ===== verification/Forwarding.thy ===== *)
theory Forwarding
  imports PipeServer DesktopQueue
begin

text \<open>
  The components put together: a client's requests travel through the pipe server, the
  bridge and the session to the agent and its replies come back; and the keys an agent lists
  reach the rows of the key window.
\<close>

section \<open>An agent that answers\<close>

text \<open>
  The connection takes each request in one write and delivers the replies, valid frames, one
  after another, in chunks of any size.
\<close>

definition answers :: "conn \<Rightarrow> byte list list \<Rightarrow> byte list list \<Rightarrow> bool" where
  "answers a requests replies \<longleftrightarrow>
     clean_reads a \<and> deadlines_work a \<and> length requests = length replies
     \<and> take (length requests) (wr_script a) = map (\<lambda>r. (int (length r), None)) requests
     \<and> prefix (concat replies) (stream a)
     \<and> list_all (\<lambda>r. ValidateResponse r = None) replies"

lemma answers_Cons:
  assumes "answers a (request # requests) replies"
  obtains reply replies' script rest where "replies = reply # replies'"
    "clean_reads a" "deadlines_work a" "wr_script a = (int (length request), None) # script"
    "stream a = reply @ rest" "ValidateResponse reply = None"
    "\<And>a'. clean_reads a' \<Longrightarrow> deadlines_work a' \<Longrightarrow> wr_script a' = script \<Longrightarrow> stream a' = rest \<Longrightarrow>
       answers a' requests replies'"
proof -
  from assms obtain reply replies' where r: "replies = reply # replies'"
    unfolding answers_def by (cases replies) auto
  from assms obtain script where s: "wr_script a = (int (length request), None) # script"
    unfolding answers_def by (cases "wr_script a") auto
  from assms r obtain rest where "stream a = reply @ rest" "prefix (concat replies') rest"
    unfolding answers_def by (auto simp: prefix_def)
  moreover have "answers a' requests replies'"
    if "clean_reads a'" "deadlines_work a'" "wr_script a' = script" "stream a' = rest" for a'
    using that assms r s calculation unfolding answers_def by auto
  moreover have "clean_reads a" "deadlines_work a" "ValidateResponse reply = None"
    using assms r unfolding answers_def by simp_all
  ultimately show ?thesis using r s that by blast
qed

lemma write_all_whole:
  assumes "wr_script c = (int (length r), None) # script" "r \<noteq> []"
  shows "\<exists>c'. write_all r c = (None, c') \<and> wr_script c' = script \<and> sent c' = sent c @ r
    \<and> same_but_writes c c'"
  using assms
  by (subst write_all.simps) (simp add: conn_write_def write_all.simps same_but_writes_def)

lemma exchange_answered:
  assumes "clean_reads c" "deadlines_work c" "wr_script c = (int (length request), None) # script"
    and "request \<noteq> []" "stream c = reply @ rest" "ValidateResponse reply = None"
  shows "\<exists>c'. exchange c request = ((reply, None), c') \<and> stream c' = rest \<and> clean_reads c'
    \<and> deadlines_work c' \<and> wr_script c' = script \<and> sent c' = sent c @ request"
proof -
  obtain c1 where 1: "SetWriteDeadline c = (None, c1)" "deadlines_work c1"
    using deadlines_work_steps(2) [OF assms(2)] by blast
  note f1 = SetWriteDeadline_frame [OF 1(1)]
  obtain c2 where 2: "write_all request c1 = (None, c2)" "wr_script c2 = script"
      "sent c2 = sent c1 @ request" "same_but_writes c1 c2"
    using write_all_whole [of c1 request script] f1 assms(3,4) by auto
  note f2 = same_but_writes_stream [OF 2(4)] same_but_writes_deadlines [OF 2(4)]
  obtain c3 where 3: "SetReadDeadline c2 = (None, c3)" "deadlines_work c3"
    using deadlines_work_steps(1) [of c2] f2 1(2) by blast
  note f3 = SetReadDeadline_frame [OF 3(1)]
  obtain c4 where 4: "read_reply c3 = ((reply, None), c4)" "stream c4 = rest" "same_but_reads c3 c4" "clean_reads c4"
    using read_reply_complete [of c3 reply rest] f1 f2 f3 assms(1,5,6) by auto
  have "exchange c request = ((reply, None), c4)"
    by (simp add: exchange_def 1(1) 2(1) 3(1) 4(1))
  with 4 f1 f3 2 3(2) same_but_reads_deadlines [OF 4(3)] show ?thesis
    by (auto simp: same_but_reads_def)
qed

section \<open>Through the session\<close>

text \<open>The connection a session has, or gets by dialling.\<close>

definition available :: "(gostr \<Rightarrow> io_error + conn) \<Rightarrow> session \<Rightarrow> conn \<Rightarrow> bool" where
  "available dial s a \<longleftrightarrow> \<not> session_closed s \<and> localPipeName (pipe_name s)
     \<and> (case session_conn s of Some c \<Rightarrow> c = a | None \<Rightarrow> dial (pipe_name s) = Inr a)"

lemma Query_forwards:
  assumes "available dial s a" "ValidateRequest request = None" "answers a (request # requests) replies"
  obtains reply replies' a' s' where "replies = reply # replies'" "answers a' requests replies'"
    "Query dial request s = ((reply, None), s')" "sent a' = sent a @ request" "available dial s' a'"
proof -
  from assms(3) show ?thesis
  proof (rule answers_Cons)
    fix reply replies' script rest
    assume r: "replies = reply # replies'" and a: "clean_reads a" "deadlines_work a"
        "wr_script a = (int (length request), None) # script" "stream a = reply @ rest"
        "ValidateResponse reply = None"
      and next_ok: "\<And>a'. clean_reads a' \<Longrightarrow> deadlines_work a' \<Longrightarrow> wr_script a' = script \<Longrightarrow> stream a' = rest \<Longrightarrow>
       answers a' requests replies'"
    have "request \<noteq> []" using ValidateRequest_length [OF assms(2)] by auto
    from exchange_answered [OF a(1-3) this a(4,5)] obtain a' where
      ex: "exchange a request = ((reply, None), a')" "stream a' = rest" "clean_reads a'"
        "deadlines_work a'" "wr_script a' = script" "sent a' = sent a @ request" by blast
    have "\<exists>s'. Query dial request s = ((reply, None), s') \<and> available dial s' a'"
      using assms(1,2) ex(1)
      by (auto simp: Query_def dial_pipe_def available_def query_on_def split: option.splits)
    then show ?thesis using that r next_ok [OF ex(3-5,2)] ex(6) by blast
  qed
qed

section \<open>Through the bridge and the pipe\<close>

lemma bridge_forwards:
  assumes "available dial (br_handler b) a" "list_all (\<lambda>r. ValidateRequest r = None) requests"
    and "answers a requests replies"
  shows "\<exists>b' a'. run_queries (queryUsing os d (Query dial) client) requests b = (replies, b')
    \<and> available dial (br_handler b') a' \<and> sent a' = sent a @ concat requests"
  using assms
proof (induction requests arbitrary: b a replies)
  case Nil
  then show ?case by (auto simp: answers_def)
next
  case (Cons request requests)
  let ?ask = "queryUsing os d (Query dial) client"
  from Cons.prems(2) have v: "ValidateRequest request = None" by simp
  obtain reply replies' a1 s1 where q: "replies = reply # replies'" "answers a1 requests replies'"
    "Query dial request (br_handler b) = ((reply, None), s1)"
    "sent a1 = sent a @ request" "available dial s1 a1"
    using Query_forwards [OF Cons.prems(1) v Cons.prems(3)] by blast
  have "ValidateResponse reply = None"
    using Cons.prems(3) q(1) by (simp add: answers_def)
  then have ask: "fst (?ask request b) = reply"
      "br_handler (snd (?ask request b)) = s1"
    using v q(3) by (simp_all add: queryUsing_reply queryUsing_handler)
  obtain b' a' where "run_queries ?ask requests (snd (?ask request b)) = (replies', b')"
      "available dial (br_handler b') a'" "sent a' = sent a1 @ concat requests"
    using Cons.IH [of "snd (?ask request b)" a1 replies'] q(2,5) ask(2) Cons.prems(2) by auto
  with q(1,4) ask(1) run_queries_Cons [of ?ask request requests b] show ?case
    by (intro exI [of _ b'] exI [of _ a']) (simp add: prod_eq_iff del: run_queries.simps)
qed

text \<open>
  The whole way, from a client whose requests arrive and who takes the replies to an agent
  that answers them.
\<close>

lemma pipe_forwards:
  assumes "available dial (br_handler b) a" "list_all (\<lambda>r. ValidateRequest r = None) requests"
    and "answers a requests replies"
    and "clean_reads c" "deadlines_work c" "stream c = concat requests @ rest" "requests_of rest = []"
    and "wr_script c = map (\<lambda>r. (int (length r), None)) replies @ script"
  shows "\<exists>e c' b' a'. serve_client os d (Query dial) fd c b = (e, c', b')
    \<and> sent c' = sent c @ concat replies
    \<and> available dial (br_handler b') a' \<and> sent a' = sent a @ concat requests"
proof -
  let ?ask = "queryUsing os d (Query dial) (fst (clientFromPipe os fd (br_handles b)))"
  obtain b1 a' where run: "run_queries ?ask requests b = (replies, b1)" "available dial (br_handler b1) a'"
      "sent a' = sent a @ concat requests"
    using bridge_forwards [OF assms(1-3)] by blast
  obtain c1 where c1: "pipe_loop ?ask c b = pipe_loop ?ask c1 b1" "sent c1 = sent c @ concat replies"
      "stream c1 = rest"
    using query_service.pipe_loop_served [where os = os and d = d and handler = "Query dial" and s = b
        and client = "fst (clientFromPipe os fd (br_handles b))" and script = script,
        OF assms(4-6,2)] assms(8) run(1)
    by auto
  obtain e c' b' where last: "pipe_loop ?ask c1 b1 = (e, c', b')" by (metis prod.exhaust)
  from pipe_loop_explained [OF last] have "b' = b1 \<and> sent c' = sent c1"
    using c1(3) assms(7) by (auto simp: explained_def)
  with c1 last have "serve_client os d (Query dial) fd c b = (e, c', b1)" "sent c' = sent c @ concat replies"
    by (simp_all add: serve_client_loop)
  with run(2,3) show ?thesis by blast
qed

section \<open>The keys an agent lists\<close>

lemma ListKeys_lists:
  assumes "localPipeName pipeName" "dial pipeName = Inr a"
    and "list_all entry_ok es" "length (identities_payload es) \<le> 262144"
    and "answers a [[0, 0, 0, 1, agentRequestIdentities]] [frame_of (identities_payload es)]"
  shows "ListKeys dial pipeName = Inr (map key_of es)"
proof -
  let ?q = "[0, 0, 0, 1, agentRequestIdentities]"
  have v: "ValidateRequest ?q = None" and nb: "\<not> isSessionBind ?q"
    by (simp_all add: ValidateRequest_def validateFrame_def AgentMaxMessageLength_def isSessionBind_def
        agentRequestIdentities_def)
  have av: "available dial (NewSession pipeName) a"
    using assms(1,2) by (simp add: available_def NewSession_def)
  obtain s' where "Query dial ?q (NewSession pipeName) = ((frame_of (identities_payload es), None), s')"
    using Query_forwards [OF av v assms(5)] by blast
  then have "QueryAgent dial pipeName ?q = (frame_of (identities_payload es), None)"
    using v nb by (simp add: QueryAgent_def)
  moreover have "parseKeys (frame_of (identities_payload es)) = Inr (map key_of es)"
    unfolding parseKeys_spec using assms(3,4) by blast
  ultimately show ?thesis by (simp add: ListKeys_def)
qed

text \<open>A finished listing travels through the channel and its message to the list view.\<close>

lemma loaded_keys_are_shown:
  fixes tos :: "('a) tray_os_scheme" and wParam :: nat and lParam :: u32
  assumes ok: "desktop_ok d" "queue_ok d" and "d_loaders d > 0" "\<not> d_closed d" "d_keyWindow d \<noteq> 0"
    and "ui_post_works os" "listed = Inr ks"
  defines "d1 \<equiv> loader_done os listed d"
  defines "d2 \<equiv> snd (onMessage tos (d_hwnd d1) wmKeysReady wParam lParam d1)"
  shows "wmKeysReady \<in> set (d_posted d1) \<and> \<not> d_loadingKeys d2
    \<and> list_view (d_keyList d2) (d_calls d2) = map key_row ks"
proof -
  have l: "loading_ok d" using ok(1) by (simp add: desktop_ok_def)
  note f = loader_fields [OF l assms(3)]
  have d1: "d1 = d\<lparr>d_loaders := d_loaders d - 1, d_keysReady := [key_result_of listed],
      d_posted := d_posted d @ [wmKeysReady]\<rparr>"
    using f assms(4,6) by (simp add: d1_def loader_done_def post_def Let_def)
  have nt: "d_taskbarReady d1 \<noteq> wmKeysReady" using not_taskbar [OF ok(2)] by (simp add: d1)
  let ?d = "d1\<lparr>d_keysReady := [], d_loadingKeys := False\<rparr>"
  have d2: "d2 = displayKeys (base_os tos) (key_result_of listed) ?d"
    using nt assms(5) by (simp add: d2_def onMessage_def Let_def d1 wmTrayNotice_def wmTrayIcon_def wmKeysReady_def)
  have "same_desktop ?d d2" unfolding d2 by (rule displayKeys_same)
  then have "d_keyList d2 = d_keyList ?d" "d_loadingKeys d2 = False"
    by (auto simp: same_desktop_def dest: arg_cong [of _ _ d_keyList] arg_cong [of _ _ d_loadingKeys])
  moreover have "list_view (d_keyList ?d) (d_calls d2) = map key_row ks"
    unfolding d2 displayKeys_view using assms(7) by (simp add: key_result_of_def)
  ultimately show ?thesis by (simp add: d1)
qed

end
