(* ===== verification/Options.thy ===== *)
theory Options
  imports Prelude
begin

text \<open>
  Configuration (\<^verbatim>\<open>pageant/pageant.go\<close>): the \<open>Pageant\<close> value, its constructors and the
  functional options. The type \<open>'h\<close> of request handlers and the built-in handler are
  arguments.
\<close>

record 'h pageant =
  ShowKeysOnStart :: bool
  SSHAgentPipe :: gostr
  pageantPipe :: bool
  PageantRequestHandler :: "'h option"

definition DefaultSSHAgentPipe :: gostr where
  "DefaultSSHAgentPipe = [92, 92, 46, 92] @ lit ''pipe'' @ [92] @ lit ''openssh-ssh-agent''"

definition New :: "gostr \<Rightarrow> bool \<Rightarrow> 'h option \<Rightarrow> 'h pageant" where
  "New openSSHPipe enablePageantPipe handler =
     \<lparr>ShowKeysOnStart = False, SSHAgentPipe = openSSHPipe, pageantPipe = enablePageantPipe,
      PageantRequestHandler = handler\<rparr>"

definition NewDefaultHandler :: "'h \<Rightarrow> gostr \<Rightarrow> bool \<Rightarrow> 'h pageant" where
  "NewDefaultHandler defaultHandler openSSHPipe enablePageantPipe =
     New openSSHPipe enablePageantPipe (Some defaultHandler)"

text \<open>An option changes the value it is given and may report an error, which is logged.\<close>

type_synonym 'h pageant_option = "'h pageant \<Rightarrow> bool \<times> 'h pageant"

definition WithSSHPipe :: "gostr \<Rightarrow> 'h pageant_option" where
  "WithSSHPipe sshPipe p = (True, p\<lparr>SSHAgentPipe := sshPipe\<rparr>)"

definition WithPageantPipe :: "bool \<Rightarrow> 'h pageant_option" where
  "WithPageantPipe enable p = (True, p\<lparr>pageantPipe := enable\<rparr>)"

definition WithPageantRequestHandler :: "'h option \<Rightarrow> 'h pageant_option" where
  "WithPageantRequestHandler handler p = (True, p\<lparr>PageantRequestHandler := handler\<rparr>)"

primrec apply_options :: "'h pageant_option list \<Rightarrow> 'h pageant \<Rightarrow> nat \<times> 'h pageant" where
  "apply_options [] p = (0, p)"
| "apply_options (applyTo # opts) p =
     (let (ok, p) = applyTo p; (logged, p) = apply_options opts p
      in (if ok then logged else Suc logged, p))"

text \<open>The configured value, with the number of errors logged on the way.\<close>

definition NewWithOptions :: "'h \<Rightarrow> 'h pageant_option list \<Rightarrow> nat \<times> 'h pageant" where
  "NewWithOptions defaultHandler opts =
     apply_options opts (New DefaultSSHAgentPipe True (Some defaultHandler))"

section \<open>The last setting of each field counts\<close>

datatype 'h setting = Ssh_pipe gostr | Pageant_pipe bool | Handler "'h option"

fun setting_option :: "'h setting \<Rightarrow> 'h pageant_option" where
  "setting_option (Ssh_pipe s) = WithSSHPipe s"
| "setting_option (Pageant_pipe b) = WithPageantPipe b"
| "setting_option (Handler h) = WithPageantRequestHandler h"

definition last_set :: "('h setting \<Rightarrow> 'a option) \<Rightarrow> 'h setting list \<Rightarrow> 'a \<Rightarrow> 'a" where
  "last_set field settings initial = foldl (\<lambda>v s. case field s of None \<Rightarrow> v | Some w \<Rightarrow> w) initial settings"

fun ssh_pipe_of :: "'h setting \<Rightarrow> gostr option" where
  "ssh_pipe_of (Ssh_pipe s) = Some s" | "ssh_pipe_of _ = None"

fun pageant_pipe_of :: "'h setting \<Rightarrow> bool option" where
  "pageant_pipe_of (Pageant_pipe b) = Some b" | "pageant_pipe_of _ = None"

fun handler_of :: "'h setting \<Rightarrow> 'h option option" where
  "handler_of (Handler h) = Some h" | "handler_of _ = None"

lemma apply_settings:
  "apply_options (map setting_option settings) p =
    (0, p\<lparr>SSHAgentPipe := last_set ssh_pipe_of settings (SSHAgentPipe p),
         pageantPipe := last_set pageant_pipe_of settings (pageantPipe p),
         PageantRequestHandler := last_set handler_of settings (PageantRequestHandler p)\<rparr>)"
proof (induction settings arbitrary: p)
  case (Cons s settings)
  show ?case
    by (cases s) (simp_all add: Cons Let_def last_set_def WithSSHPipe_def WithPageantPipe_def
        WithPageantRequestHandler_def)
qed (simp add: last_set_def)

end
