(* ===== verification/PropsDesktop.thy ===== *)
theory PropsDesktop
  imports Forwarding Options
begin

text \<open>
  The properties of \<^verbatim>\<open>pageant/desktop_windows.go\<close>: the text shown, the queues, the key
  window and its loader, and closing.
\<close>

section \<open>Examples used by the witnesses\<close>

text \<open>A desktop on which every call succeeds, just created, and with its key window opened.\<close>

definition good_ui :: ui_os where
  "good_ui = \<lparr>ui_init_controls = True, ui_register_class = True, ui_create_key_window = 10,
     ui_create_control = (\<lambda>_ _. 11), ui_dpi_for_window = Some 96, ui_create_font = 12,
     ui_client_rect = (0, 0, 900, 400), ui_is_dialog = False, ui_post_works = True,
     ui_tray_add_works = True, ui_tray_version_works = True\<rparr>"

definition lossy_ui :: ui_os where
  "lossy_ui = good_ui\<lparr>ui_post_works := False\<rparr>"

definition new_desktop :: desktop where
  "new_desktop = addTrayIcon good_ui
     ((fresh_desktop 1 DefaultSSHAgentPipe 20 21 22)\<lparr>d_taskbarReady := 0xC001\<rparr>)"

definition loading_desktop :: desktop where
  "loading_desktop = showKeys good_ui new_desktop"

lemma new_desktop_init: "init_desktop new_desktop"
  unfolding init_desktop_def newDesktop_def new_desktop_def
  by (intro exI [of _ good_ui] exI [of _ 1] exI [of _ DefaultSSHAgentPipe] exI [of _ "(20, 21)"] exI [of _ 22]
      exI [of _ "0xC001"]) simp

lemma new_desktop_core: "core new_desktop = (False, [], [], False, 0, [], 0xC001, 1, DefaultSSHAgentPipe, [], 0, [], 0)"
  "d_keyWindow new_desktop = 0" "d_keyClass new_desktop = False"
  by (simp_all add: new_desktop_def addTrayIcon_def fresh_desktop_def core_def call_def Let_def good_ui_def)

lemma loading_desktop_loads: "d_loadingKeys loading_desktop"
proof -
  have "d_loadingKeys (refreshKeys d)" for d
    using refreshKeys_core(1) [of d] by (simp add: core_def)
  then show ?thesis
    by (simp add: loading_desktop_def showKeys_def new_desktop_core(2,3) register_class_def good_ui_def
        create_controls_def control_def Let_def)
qed

lemma loading_desktop_core: "core loading_desktop = (False, [], [], True, 1, [], 0xC001, 1, DefaultSSHAgentPipe, [], 0, [], 0)"
  "d_keyWindow loading_desktop = 10"
proof -
  have "core loading_desktop = (False, [], [], True, 1, [], 0xC001, 1, DefaultSSHAgentPipe, [], 0, [], 0)
      \<and> d_keyWindow loading_desktop = 10"
  proof (cases rule: showKeys_outcome [of good_ui new_desktop])
    case (load d')
    then show ?thesis
      using refreshKeys_core(1,2) [of d'] new_desktop_core(1)
      by (simp add: loading_desktop_def core_def window_def good_ui_def)
  next
    case no_load
    with loading_desktop_loads new_desktop_core(1) show ?thesis by (simp add: loading_desktop_def core_def)
  qed
  then show "core loading_desktop = (False, [], [], True, 1, [], 0xC001, 1, DefaultSSHAgentPipe, [], 0, [], 0)"
    "d_keyWindow loading_desktop = 10" by blast+
qed

lemma loading_desktop_reach: "reach init_desktop (desktop_step reliable) loading_desktop"
proof (rule reach_step)
  show "reach init_desktop (desktop_step reliable) new_desktop"
    by (rule reach_init) (rule new_desktop_init)
  show "desktop_step reliable new_desktop loading_desktop"
    unfolding loading_desktop_def by (rule show_keys)
qed

section \<open>Text\<close>

text \<open>
  C36: a native control never gets a nil pointer or text cut short by a NUL: \<open>uiString\<close> is
  the first 2048 runes with every control and format character blanked, encoded in UTF-16
  and terminated, and decoding it gives them back. Copying the same text into a fixed
  buffer keeps a whole prefix of its runes (a surrogate pair is never cut), all of them when
  they fit and otherwise all but at most one unit of the room there is, leaves room for the
  terminator and clears the rest.
\<close>

theorem ui_text_is_shown:
  "uiString v = Some (utf16_encode (runes_of (cleanUIText v)) @ [0])
   \<and> runes_of (cleanUIText v) = map (blank_if hidden_in_ui) (take max_ui_runes (runes_of v))
   \<and> utf16_decode (utf16_encode (runes_of (cleanUIText v))) = runes_of (cleanUIText v)
   \<and> 0 \<notin> set (cleanUIText v)
   \<and> (destination \<noteq> [] \<longrightarrow> (\<exists>k. let kept = utf16_encode (take k (runes_of (cleanUIText v))) in
        length kept < length destination
        \<and> (kept = utf16_encode (runes_of (cleanUIText v)) \<or> length destination \<le> length kept + 2)
        \<and> copyUIText destination v = kept @ replicate (length destination - length kept) 0))"
  using copyUIText_eq [of destination v]
  by (simp add: uiString_Some runes_of_cleanUIText [symmetric] utf16_decode_encode runes_of_valid
      ui.clean_no_NUL)

theorem ui_text_is_shown_witness:
  "\<exists>k. let kept = utf16_encode (take k (runes_of (cleanUIText (lit ''abc'')))) in
    length kept < length [1, 2 :: u16]
    \<and> (kept = utf16_encode (runes_of (cleanUIText (lit ''abc''))) \<or> length [1, 2 :: u16] \<le> length kept + 2)
    \<and> copyUIText [1, 2] (lit ''abc'') = kept @ replicate (length [1, 2 :: u16] - length kept) 0"
  using ui_text_is_shown [of "lit ''abc''" "[1, 2]"] by blast

text \<open>
  C39: the notice about a signature is written as three lines, and the lines are lost on the
  way to the tray. The body \<open>signingNotice\<close> words has two line breaks; \<open>notify\<close> puts into
  the queue its first 2048 runes with every control and format character, so every line
  break, turned into a blank, and posts its message; and the message shows exactly that, in
  buffers of 64 and 256 units without a line break.
\<close>

theorem notice_lines_are_lost:
  fixes tos :: "('a) tray_os_scheme" and wParam :: nat and lParam :: u32
  assumes "reach init_desktop (desktop_step True) d" "\<not> d_closed d" "d_notices d = []"
    and "d_notesEnabled d" "d_trayAdded d" "ui_post_works os" and "signingNotice sign response client target = (title, body)"
  shows "let d1 = notify os title body d;
             d2 = snd (onMessage tos (d_hwnd d1) wmTrayNotice wParam lParam d1)
         in 2 \<le> count_list body 10
            \<and> (desktop_step True)\<^sup>*\<^sup>* d d1 \<and> wmTrayNotice \<in> set (d_posted d1)
            \<and> (\<exists>t b. d_notices d1 = [(t, b)]
                \<and> runes_of b = map (blank_if hidden_in_ui) (take 2048 (runes_of body))
                \<and> 10 \<notin> set (runes_of b) \<and> 13 \<notin> set (runes_of b)
                \<and> d_calls d2 = d_calls d
                    @ [Tray_notice (copyUIText (replicate 64 0) t) (copyUIText (replicate 256 0) b)]
                \<and> 10 \<notin> set (copyUIText (replicate 256 0) b))"
proof -
  have "queue_ok d" using reliable_desktop.reach_inv [OF assms(1)] .
  note shown = notice_is_shown [OF this assms(2-5), where os = os and title = title and body = body]
  have "2 \<le> count_list body 10"
    using assms(7) by (auto simp: signingNotice_def nl_def)
  moreover have "wmTrayNotice \<in> set (d_posted (notify os title body d))"
    using assms(2,3,6) by (simp add: notify_def Let_def post_def notice_capacity_def)
  ultimately show ?thesis
    using notify_run [of True os d title body] assms(6) shown(1) shown(2) [of tos wParam lParam] runes_of_cleanUIText [of body] ui.clean_no_newline [of body]
      copyUIText_no_newline [of "replicate 256 0" "cleanUIText body"]
    by (auto simp: Let_def max_ui_runes_def)
qed

theorem notice_lines_are_lost_witness:
  "\<exists>b. d_notices (notify good_ui (fst (signingNotice \<lparr>sign_key_type = [], sign_fingerprint = [65], sign_username = []\<rparr>
        [0, 0, 0, 1, 5] no_client no_target))
      (snd (signingNotice \<lparr>sign_key_type = [], sign_fingerprint = [65], sign_username = []\<rparr>
        [0, 0, 0, 1, 5] no_client no_target)) new_desktop) = b
    \<and> length b = 1 \<and> 10 \<notin> set (runes_of (snd (hd b)))"
proof -
  have "reach init_desktop (desktop_step True) new_desktop" by (rule reach_init) (rule new_desktop_init)
  moreover have "\<not> d_closed new_desktop" "d_notices new_desktop = []"
    using new_desktop_core(1) by (simp_all add: core_def)
  moreover have "d_notesEnabled new_desktop" "d_trayAdded new_desktop" "ui_post_works good_ui"
    by (simp_all add: new_desktop_def addTrayIcon_def fresh_desktop_def Let_def good_ui_def call_def)
  ultimately show ?thesis
    using notice_lines_are_lost [where d = new_desktop and os = good_ui
        and sign = "\<lparr>sign_key_type = [], sign_fingerprint = [65], sign_username = []\<rparr>"
        and response = "[0, 0, 0, 1, 5]" and client = no_client and target = no_target
        and title = "fst (signingNotice \<lparr>sign_key_type = [], sign_fingerprint = [65], sign_username = []\<rparr>
          [0, 0, 0, 1, 5] no_client no_target)"
        and body = "snd (signingNotice \<lparr>sign_key_type = [], sign_fingerprint = [65], sign_username = []\<rparr>
          [0, 0, 0, 1, 5] no_client no_target)"
        and tos = "ui_os.extend good_ui \<lparr>ui_create_menu = True, ui_cursor = (0, 0), ui_track = (\<lambda>d. (d, 0))\<rparr>"
        and wParam = 0 and lParam = 0]
    by (auto simp: Let_def)
qed

section \<open>The key list\<close>

text \<open>
  After a result is shown, the list holds exactly its keys, each with its type,
  fingerprint and comment, in order, and nothing of what was shown before; a failed listing
  leaves it empty.
\<close>

lemma key_list_shows_result:
  "list_view (d_keyList d) (d_calls (displayKeys os result d)) =
    (if result_err result = None then map key_row (result_keys result) else [])"
  by (rule displayKeys_view)

text \<open>
  C37: at every DPI Windows can report, scaling a length of the program is exact: the 32-bit
  product does not overflow, the result is the true quotient, at 96 DPI the length itself,
  and never negative.
\<close>

theorem scaling_is_exact:
  assumes "unat (d_dpi d) < 2 ^ 16" "0 \<le> sint v" "sint v < 2 ^ 15"
  shows "sint (scale d v) = sint v * int (unat (d_dpi d)) div 96
    \<and> (d_dpi d = 96 \<longrightarrow> scale d v = v) \<and> 0 \<le> sint (scale d v)"
proof -
  have eq: "sint (scale d v) = sint v * int (unat (d_dpi d)) div 96" by (rule scale_exact [OF assms])
  moreover have "scale d v = v" if "d_dpi d = 96"
    using eq that by (intro signed_word_eqI) simp
  moreover have "0 \<le> sint v * int (unat (d_dpi d)) div 96"
    using assms(2) by (intro pos_imp_zdiv_nonneg_iff [THEN iffD2]) simp_all
  ultimately show ?thesis by simp
qed

theorem scaling_is_exact_witness:
  "sint (scale (loading_desktop\<lparr>d_dpi := 144\<rparr>) 940) = 1410"
  using scaling_is_exact [of "loading_desktop\<lparr>d_dpi := 144\<rparr>" 940] by simp

section \<open>Queues and the loader\<close>

text \<open>
  C30: in every reachable state at most 16 notices wait; a listing is running, about to be
  sent or waiting to be shown exactly when the window says it is loading (until the desktop
  is closed), never two at once; and the key window's controls are all there or all gone.
\<close>

theorem desktop_consistent:
  assumes "reach init_desktop (desktop_step reliable) d"
  shows "length (d_notices d) \<le> 16 \<and> d_loaders d + length (d_sending d) + length (d_keysReady d) \<le> 1
    \<and> (\<not> d_closed d \<longrightarrow>
        (d_loadingKeys d \<longleftrightarrow> d_loaders d + length (d_sending d) + length (d_keysReady d) = 1))
    \<and> window_ok d"
  using desktop_machine.reach_inv [OF assms]
  by (auto simp: desktop_ok_def notice_capacity_def loading_defs split: if_splits)

theorem desktop_consistent_witness:
  "d_loaders loading_desktop + length (d_keysReady loading_desktop) \<le> 1 \<and> window_ok loading_desktop"
  using desktop_consistent [OF loading_desktop_reach] by auto

text \<open>
  C32: while \<open>PostMessage\<close> works, a window that says it is loading always gets its result:
  the loader still runs; or it has the result and sending it does not find the channel full;
  or the result is in the channel, its message posted or about to be, and dispatching the
  message ends the loading. And every notice in the queue has its own message, posted or
  about to be.
\<close>

theorem loading_ends:
  assumes "reach init_desktop (desktop_step True) d" "d_loadingKeys d" "\<not> d_closed d" "ui_post_works uos"
  shows "(d_loaders d = 1
      \<or> (\<exists>r. d_sending d = [r] \<and> d_keysReady (loader_send d) = [r] \<and> d_readying (loader_send d) = 1)
      \<or> ((wmKeysReady \<in> set (d_posted d)
           \<or> (d_readying d = 1 \<and> wmKeysReady \<in> set (d_posted (loader_post uos d))))
         \<and> \<not> d_loadingKeys (snd (onMessage os (d_hwnd d) wmKeysReady wParam lParam d))))
    \<and> length (d_notices d) \<le> count_list (d_posted d) wmTrayNotice + d_noticing d"
proof -
  have q: "queue_ok d" using reliable_desktop.reach_inv [OF assms(1)] .
  have l: "loading_ok d" using desktop_machine.reach_inv [OF assms(1)] by (simp add: desktop_ok_def)
  have m: "messages_ok d" using announced_desktop.reach_inv [OF assms(1)] .
  have notices: "length (d_notices d) \<le> count_list (d_posted d) wmTrayNotice + d_noticing d"
    using q by (simp add: queue_ok_def)
  consider (lists) "d_loaders d = 1" | (sends) r rs where "d_sending d = r # rs" | (waits) r where "d_keysReady d = [r]"
    using l assms(2,3) by (cases "d_sending d"; cases "d_keysReady d") (auto simp: loading_defs)
  then show ?thesis
  proof cases
    case sends
    have "d_readying d = 0" using m sending_fields [OF l sends] by (simp add: messages_ok_def)
    with notices sends sending_fields [OF l sends] loader_send_eq [OF l sends] show ?thesis by simp
  next
    case waits
    have "\<not> d_loadingKeys (snd (onMessage os (d_hwnd d) wmKeysReady wParam lParam d))"
      using onMessage_takes_keys [OF conjunct2 [OF not_taskbar [OF q]] waits, of os wParam lParam]
      by (simp add: core_def)
    moreover have "count_list (d_posted d) wmKeysReady + d_readying d = 1"
      using q m waits by (simp add: queue_ok_def messages_ok_def)
    then have "wmKeysReady \<in> set (d_posted d) \<or> d_readying d = 1"
      using count_list_0_iff [of "d_posted d" wmKeysReady] by (cases "d_readying d") auto
    ultimately show ?thesis using notices assms(4) by (auto simp: loader_post_def post_def)
  qed (use notices in simp)
qed

theorem loading_ends_witness:
  "d_loaders loading_desktop = 1 \<and> length (d_notices loading_desktop) \<le> count_list (d_posted loading_desktop) wmTrayNotice"
proof -
  have f: "d_loadingKeys loading_desktop" "\<not> d_closed loading_desktop" "d_sending loading_desktop = []"
    "d_readying loading_desktop = 0" "d_posted loading_desktop = []" "d_noticing loading_desktop = 0"
    using loading_desktop_core by (simp_all add: core_def)
  have "ui_post_works good_ui" by (simp add: good_ui_def)
  from loading_ends [OF loading_desktop_reach f(1,2) this,
      of "ui_os.extend good_ui \<lparr>ui_create_menu = True, ui_cursor = (0, 0), ui_track = (\<lambda>d. (d, 0))\<rparr>" 0 0] f
  show ?thesis by simp
qed

text \<open>
  C38: a lost message is lost for good. When \<open>PostMessage\<close> fails for a listing that has been
  sent, or for one that finishes undisturbed, the window keeps saying it is loading in every
  later state, and Refresh never starts another listing.
\<close>

theorem lost_message_blocks_refresh:
  assumes "reach init_desktop (desktop_step reliable) d" "\<not> ui_post_works os"
    and "(d_readying d > 0 \<and> d1 = loader_post os d) \<or> (d_loaders d > 0 \<and> d1 = loader_done os listed d)"
    and "(desktop_step reliable)\<^sup>*\<^sup>* d1 d'"
  shows "d_loadingKeys d' \<and> d_loaders d' = 0 \<and> d_loaders (refreshKeys d') = 0"
proof -
  have "stuck_loading d1"
    using assms(3) lost_message_sticks [OF desktop_machine.reach_inv [OF assms(1)]
        announced_desktop.reach_inv [OF assms(1)] assms(2)] by auto
  from stuck.flag_steps [OF assms(4) this] show ?thesis
    by (simp add: stuck_loading_def refreshKeys_def)
qed

theorem lost_message_blocks_refresh_witness:
  "d_loadingKeys (loader_done lossy_ui (Inr []) loading_desktop)
   \<and> d_loaders (loader_done lossy_ui (Inr []) loading_desktop) = 0
   \<and> d_loaders (refreshKeys (loader_done lossy_ui (Inr []) loading_desktop)) = 0"
  by (rule lost_message_blocks_refresh [where reliable = False and os = lossy_ui and d = loading_desktop
        and listed = "Inr []" and ?d1.0 = "loader_done lossy_ui (Inr []) loading_desktop"])
    (use loading_desktop_reach [of False] loading_desktop_core in \<open>simp_all add: core_def lossy_ui_def\<close>)

section \<open>Closing\<close>

text \<open>
  C33: closing an open desktop gives back to Windows what it holds, each thing once: the
  retry timer is stopped, the tray icon is deleted exactly when there is one, the key window
  and its font are destroyed exactly when there are any, the window class is unregistered
  when it was registered, each icon the program owns is destroyed, and no other window,
  font or icon is. The window is destroyed before its class. The fields say so too, and
  closing it again does nothing.
\<close>

theorem desktop_close_releases:
  assumes "\<not> d_closed d" "window_ok d"
  shows "(\<exists>ks ks'. d_calls (close_desktop d) = d_calls d @ ks @ ks'
      \<and> Kill_timer \<in> set ks
      \<and> count_list (ks @ ks') Tray_delete = (if d_trayAdded d then 1 else 0)
      \<and> (\<forall>h. count_list (ks @ ks') (Destroy_window h) = (if h \<noteq> 0 \<and> h = d_keyWindow d then 1 else 0))
      \<and> (\<forall>f. count_list (ks @ ks') (Delete_font f) = (if f \<noteq> 0 \<and> f = d_font d then 1 else 0))
      \<and> count_list ks Unregister_keys_class = 0 \<and> (\<forall>h. count_list ks' (Destroy_window h) = 0)
      \<and> count_list ks' Unregister_keys_class = (if d_keyClass d then 1 else 0)
      \<and> (\<forall>i. count_list (ks @ ks') (Destroy_icon i) = (if i \<in> {d_ownedIcon d, d_ownedLarge d} - {0} then 1 else 0)))
    \<and> d_closed (close_desktop d) \<and> d_trayAdded (close_desktop d) = False
    \<and> d_keyWindow (close_desktop d) = 0 \<and> d_font (close_desktop d) = 0
    \<and> close_desktop (close_desktop d) = close_desktop d"
proof -
  let ?ks = "Kill_timer # (if d_trayAdded d then [Tray_delete] else [])
     @ (if d_keyWindow d \<noteq> 0
        then Destroy_window (d_keyWindow d) # (if d_font d \<noteq> 0 then [Delete_font (d_font d)] else []) else [])"
  let ?ks' = "(if d_keyClass d then [Unregister_keys_class] else [])
     @ (if d_ownedIcon d \<noteq> 0 then [Destroy_icon (d_ownedIcon d)] else [])
     @ (if d_ownedLarge d \<noteq> 0 \<and> d_ownedLarge d \<noteq> d_ownedIcon d then [Destroy_icon (d_ownedLarge d)] else [])"
  have font: "d_keyWindow d = 0 \<Longrightarrow> d_font d = 0" using assms(2) by (simp add: window_ok_def)
  have calls: "d_calls (close_desktop d) = d_calls d @ ?ks @ ?ks'"
    using close_desktop_calls [OF assms(1)] by (simp add: closing_calls_def)
  have closed: "d_closed (close_desktop d)" using close_desktop_core [of d] by (simp add: core_def)
  have "d_keyWindow (close_desktop d) = 0 \<and> d_font (close_desktop d) = 0"
    using close_desktop_window [OF assms] by (auto simp: window_ok_def)
  note gone = this closed close_desktop_tray [OF assms(1)] close_desktop_idem [of d]
  show ?thesis
    by (rule conjI, rule exI [of _ ?ks], rule exI [of _ ?ks'], intro conjI allI) (use calls font gone in auto)
qed

theorem desktop_close_releases_witness:
  "d_closed (close_desktop new_desktop) \<and> d_trayAdded (close_desktop new_desktop) = False
    \<and> d_keyWindow (close_desktop new_desktop) = 0 \<and> d_font (close_desktop new_desktop) = 0"
proof -
  have "\<not> d_closed new_desktop" using new_desktop_core(1) by (simp add: core_def)
  moreover have "window_ok new_desktop"
    using init_desktop_ok [OF new_desktop_init] by (simp add: desktop_ok_def)
  ultimately show ?thesis using desktop_close_releases [of new_desktop] by blast
qed

end
