(* ===== verification/Phases.thy ===== *)
theory Phases
  imports SessionConc DesktopQueue
begin

text \<open>
  Abstract specifications of two machines, and the simulations that show the detailed ones
  implement them: a session goes through its phases once, in order; the key loader goes
  round in a circle until the desktop is closed.
\<close>

section \<open>The life of a session\<close>

datatype session_phase = Fresh | Connected | Retired

instantiation session_phase :: linorder
begin

fun phase_number :: "session_phase \<Rightarrow> nat" where
  "phase_number Fresh = 0"
| "phase_number Connected = 1"
| "phase_number Retired = 2"

definition less_eq_session_phase :: "session_phase \<Rightarrow> session_phase \<Rightarrow> bool" where
  "less_eq_session_phase p q \<longleftrightarrow> phase_number p \<le> phase_number q"

definition less_session_phase :: "session_phase \<Rightarrow> session_phase \<Rightarrow> bool" where
  "less_session_phase p q \<longleftrightarrow> phase_number p < phase_number q"

instance
proof
  show "p = q" if "p \<le> q" "q \<le> p" for p q :: session_phase
    using that by (cases p; cases q) (simp_all add: less_eq_session_phase_def)
qed (auto simp: less_eq_session_phase_def less_session_phase_def)

end

definition session_phase_of :: "session_sys \<Rightarrow> session_phase" where
  "session_phase_of m = (if sys_closed m then Retired else if sys_conn m = None then Fresh else Connected)"

lemma session_step_phase:
  "session_step m m' \<Longrightarrow> session_inv m \<Longrightarrow> session_phase_of m' = session_phase_of m \<or> session_phase_of m < session_phase_of m'"
  by (induction rule: session_step.induct)
    (auto simp: session_phase_of_def less_session_phase_def session_inv_def take_conn_def)

interpretation session_life: simulation init_session session_step session_inv session_phase_of "\<lambda>p. p = Fresh" "(<)"
  by unfold_locales (auto simp: init_session_def session_phase_of_def dest: session_step_phase)

lemma phases_increase: "(<)\<^sup>*\<^sup>* p q \<Longrightarrow> p \<le> q" for p q :: session_phase
  by (induction rule: rtranclp_induct) auto

section \<open>The key loader\<close>

datatype load_phase = Idle | Listing | Listed | Over

inductive load_step :: "load_phase \<Rightarrow> load_phase \<Rightarrow> bool" where
  start: "load_step Idle Listing"
| finish: "load_step Listing Listed"
| take_up: "load_step Listed Idle"
| stop: "p \<noteq> Over \<Longrightarrow> load_step p Over"

definition load_phase_of :: "desktop \<Rightarrow> load_phase" where
  "load_phase_of d =
     (if d_closed d then Over
      else if \<not> d_loadingKeys d then Idle
      else if d_loaders d > 0 \<or> d_sending d \<noteq> [] then Listing else Listed)"

lemma load_phase_core: "core d' = core d \<Longrightarrow> load_phase_of d' = load_phase_of d"
  by (simp add: load_phase_of_def core_def)

definition advances :: "desktop \<Rightarrow> desktop \<Rightarrow> bool" where
  "advances d d' \<longleftrightarrow> load_phase_of d' = load_phase_of d \<or> load_step (load_phase_of d) (load_phase_of d')"

lemma advances_same: "core d' = core d \<Longrightarrow> advances d d'"
  unfolding advances_def by (rule disjI1) (rule load_phase_core)

lemma advances_refl [simp]: "advances d d"
  by (rule advances_same) (rule refl)

lemma advances_core: "core d1 = core d \<Longrightarrow> core d2 = core d' \<Longrightarrow> advances d d' \<Longrightarrow> advances d1 d2"
  using load_phase_core [of d1 d] load_phase_core [of d2 d'] by (simp add: advances_def)

lemma advances_refresh: "advances d (refreshKeys d)"
  using refreshKeys_core(1) [of d]
  by (auto simp: advances_def load_phase_of_def core_def intro: load_step.intros split: if_splits)

lemma advances_showKeys: "advances d (showKeys os d)"
proof (cases rule: showKeys_outcome [of os d])
  case no_load
  from no_load(1) show ?thesis by (rule advances_same)
next
  case (load d')
  from advances_core [OF load(2) [symmetric] _ advances_refresh] load(1) show ?thesis by simp
qed

lemma load_phase_post [simp]: "load_phase_of (post os msg d) = load_phase_of d"
  by (simp add: load_phase_of_def post_def)

lemma load_phase_call [simp]: "load_phase_of (call k d) = load_phase_of d"
  by (rule load_phase_core) simp

lemma load_phase_tray [simp]: "load_phase_of (addTrayIcon os d) = load_phase_of d"
  by (rule load_phase_core) simp

lemma advances_post [simp]: "advances d (post os msg d') = advances d d'" "advances (post os msg d) d' = advances d d'"
  by (simp_all add: advances_def)

lemma advances_call [simp]: "advances d (call k d') = advances d d'" "advances (call k d) d' = advances d d'"
  by (simp_all add: advances_def)

lemma advances_menu_selected: "advances d (menu_selected os selected d)"
proof -
  have "advances d (d\<lparr>d_notesEnabled := b\<rparr>)" for b
    by (rule advances_same) (simp add: core_def)
  then show ?thesis
    using advances_showKeys [of d os] by (simp add: menu_selected_def)
qed

lemma advances_showTrayMenu:
  assumes "calm os"
  shows "advances d (showTrayMenu os anchor d)"
proof (cases "ui_create_menu os")
  case True
  let ?d = "post (base_os os) 0 (open_menu os anchor d)"
  have "advances ?d (menu_selected (base_os os) s ?d)" for s by (rule advances_menu_selected)
  then have "advances (open_menu os anchor d) (menu_selected (base_os os) s ?d)" for s by simp
  then have "advances d (menu_selected (base_os os) s ?d)" for s
    by (rule advances_core [rotated 2]) simp_all
  with True assms show ?thesis
    by (simp add: showTrayMenu_def Let_def split_def calm_def)
qed (simp add: showTrayMenu_def advances_def)

lemma advances_onMessage:
  assumes "calm os" "desktop_ok d"
  shows "advances d (snd (onMessage os h m wParam lParam d))"
proof -
  have "core (d\<lparr>d_trayAdded := False\<rparr>) = core d" by (simp add: core_def)
  then have "core (addTrayIcon os (d\<lparr>d_trayAdded := False\<rparr>)) = core d" by simp
  then have tray: "advances d (addTrayIcon os (d\<lparr>d_trayAdded := False\<rparr>))" "advances d (addTrayIcon os d)"
    by (auto intro: advances_same)
  have notice: "advances d (show_notice n (d\<lparr>d_notices := ns\<rparr>))" for n ns
    using load_phase_core [OF core_show_notice(1), of n "d\<lparr>d_notices := ns\<rparr>"]
    by (simp add: advances_def load_phase_of_def)
  have keys: "advances d d'" if "d_keysReady d = r # rs" and "core d' = core (d\<lparr>d_keysReady := rs, d_loadingKeys := False\<rparr>)" for r rs d'
  proof -
    have "d_loaders d = 0 \<and> d_sending d = [] \<and> d_loadingKeys d"
      using assms(2) that(1) by (auto simp: desktop_ok_def loading_defs split: if_splits)
    then have "load_phase_of d = Over \<or> load_phase_of d = Listed" by (simp add: load_phase_of_def)
    moreover have "load_phase_of d' = (if d_closed d then Over else Idle)"
      using that(2) by (simp add: load_phase_of_def core_def)
    ultimately show ?thesis
      by (auto simp: advances_def load_phase_of_def intro: load_step.intros)
  qed
  show ?thesis
    using tray notice keys advances_showKeys [of d "base_os os"] advances_showTrayMenu [OF assms(1)]
    by (auto simp: onMessage_def Let_def split: list.split)
qed

lemma advances_step:
  assumes "desktop_step reliable d d'" "desktop_ok d"
  shows "advances d d'"
  using assms
proof (induction rule: desktop_step.induct)
  case (notify_checked d title body)
  show ?case by (simp add: notify_check_def advances_def load_phase_of_def)
next
  case (notify_sent notice d)
  show ?case by (simp add: notify_send_def Let_def advances_def load_phase_of_def)
next
  case (notify_posted os d)
  show ?case by (simp add: notify_post_def) (simp add: advances_def load_phase_of_def)
next
  case (loader_checked d listed)
  then have "d_loadingKeys d" using loader_fields [of d] by (simp add: desktop_ok_def)
  with loader_checked show ?case by (simp add: loader_check_def Let_def advances_def load_phase_of_def)
next
  case (loader_sent d)
  then obtain r rs where r: "d_sending d = r # rs" by (cases "d_sending d") auto
  have l: "loading_ok d" using loader_sent by (simp add: desktop_ok_def)
  note f = sending_fields [OF l r]
  show ?case
    unfolding loader_send_eq [OF l r] using f r
    by (simp add: advances_def load_phase_of_def load_step.intros)
next
  case (loader_posted os d)
  show ?case by (simp add: loader_post_def) (simp add: advances_def load_phase_of_def)
next
  case (dispatched os d m ms wParam lParam)
  let ?d = "d\<lparr>d_posted := ms\<rparr>"
  have "advances ?d (snd (onMessage os (d_hwnd d) m wParam lParam ?d))"
    using dispatched by (intro advances_onMessage) (simp_all add: desktop_ok_posted)
  moreover have "load_phase_of ?d = load_phase_of d" by (simp add: load_phase_of_def)
  ultimately show ?case by (simp add: advances_def)
next
  case (sent os m d wParam lParam)
  then show ?case by (intro advances_onMessage)
next
  case (key_window d uos m wParam rect)
  then show ?case
    using keysWndProc_core [of uos "d_keyWindow d" m wParam rect d] advances_refresh [of d]
    by (auto intro: advances_same advances_core)
next
  case (shut d)
  have "d_closed (close_desktop d)" using close_desktop_core [of d] by (simp add: core_def)
  then show ?case by (auto simp: advances_def load_phase_of_def intro: load_step.stop)
qed (simp_all add: advances_showKeys advances_menu_selected)

interpretation loader: simulation init_desktop "desktop_step reliable" desktop_ok load_phase_of "\<lambda>p. p = Idle" load_step
  for reliable
proof unfold_locales
  show "load_phase_of d = Idle" if "init_desktop d" for d
    using init_desktop_fields(1) [OF that] by (simp add: load_phase_of_def core_def)
  show "load_phase_of d' = load_phase_of d \<or> load_step (load_phase_of d) (load_phase_of d')"
    if "desktop_step reliable d d'" "desktop_ok d" for d d'
    using advances_step [OF that] by (simp add: advances_def)
qed

end
