(* ===== verification/PipeName.thy ===== *)
theory PipeName
  imports Security Digest GoStrings
begin

text \<open>
  The name and the access of Pageant's own pipe (\<^verbatim>\<open>pageant/run_windows.go\<close>):
  \<open>capiObfuscateString\<close>, \<open>newPageantListener\<close> and \<open>listenUserPipe\<close>.
  \<open>CryptProtectMemory\<close>, the current user's name and SID, the text of a SID and go-winio's
  \<open>ListenPipe\<close> are arguments.
\<close>

definition wndClassName :: gostr where
  "wndClassName = lit ''Pageant''"

text \<open>The name, its terminator, and zeros up to a whole number of 16-byte blocks.\<close>

definition padded :: "gostr \<Rightarrow> byte list" where
  "padded realname =
     realname @ replicate ((length realname + 1 + 15) div 16 * 16 - length realname) 0"

definition capiObfuscateString :: "(byte list \<Rightarrow> byte list option) \<Rightarrow> gostr \<Rightarrow> gostr option" where
  "capiObfuscateString protect realname =
     (case protect (padded realname) of
        None \<Rightarrow> None
      | Some data \<Rightarrow> Some (hex_encode (sha256 data)))"

text \<open>The format string is \<open>\\.\pipe\pageant.%s.%s\<close>.\<close>

definition agent_pipe_name :: "gostr \<Rightarrow> gostr \<Rightarrow> gostr" where
  "agent_pipe_name username hash =
     [92, 92, 46, 92] @ lit ''pipe'' @ [92] @ lit ''pageant.'' @ username @ lit ''.'' @ hash"

text \<open>\<open>D:P(A;;GA;;;SID)\<close>: one entry, full access for that SID, inheritance cut off.\<close>

definition user_only_descriptor :: "gostr \<Rightarrow> gostr" where
  "user_only_descriptor sid_text = lit ''D:P(A;;GA;;;'' @ sid_text @ lit '')''"

record 'l listener_os = security_os +
  os_username :: "gostr option"
  os_protect :: "byte list \<Rightarrow> byte list option"
  os_sid_text :: "sid \<Rightarrow> gostr"
  os_listen :: "gostr \<Rightarrow> gostr \<Rightarrow> 'l option"

definition listenUserPipe :: "('l, 'a) listener_os_scheme \<Rightarrow> gostr \<Rightarrow> 'l option" where
  "listenUserPipe os name =
     (case GetUserSID os of
        Inl _ \<Rightarrow> None
      | Inr user \<Rightarrow> os_listen os name (user_only_descriptor (os_sid_text os user)))"

text \<open>The part of a name after its last backslash: \<open>parts[len(parts)-1]\<close>.\<close>

definition account_name :: "gostr \<Rightarrow> gostr" where
  "account_name username =
     (case split_last 92 username of None \<Rightarrow> username | Some (_, name) \<Rightarrow> name)"

definition newPageantListener :: "('l, 'a) listener_os_scheme \<Rightarrow> 'l option" where
  "newPageantListener os =
     (case os_username os of
        None \<Rightarrow> None
      | Some username \<Rightarrow>
          (case capiObfuscateString (os_protect os) wndClassName of
             None \<Rightarrow> None
           | Some hash \<Rightarrow> listenUserPipe os (agent_pipe_name (account_name username) hash)))"

section \<open>Properties\<close>

lemma length_padded:
  "length (padded s) mod 16 = 0 \<and> length s < length (padded s) \<and> length (padded s) \<le> length s + 16"
proof -
  let ?n = "(length s + 1 + 15) div 16 * 16"
  have d: "(length s + 16) div 16 * 16 + (length s + 16) mod 16 = length s + 16"
    by (rule div_mult_mod_eq)
  moreover have "(length s + 16) mod 16 < 16" by simp
  ultimately have "length s < ?n" "?n \<le> length s + 16" by linarith+
  then show ?thesis by (simp add: padded_def)
qed

text \<open>Different names stay different under the padding, as long as they hold no NUL.\<close>

lemma padded_inject:
  assumes "padded s = padded t" "0 \<notin> set s" "0 \<notin> set t"
  shows "s = t"
proof -
  have cut: "\<exists>zs. padded r = r @ 0 # zs" for r
  proof -
    have "0 < length (padded r) - length r" using length_padded [of r] by simp
    then show ?thesis
      unfolding padded_def by (cases "(length r + 1 + 15) div 16 * 16 - length r") auto
  qed
  from cut [of s] cut [of t] assms show ?thesis by (metis first_sep_unique)
qed

lemma split_last_None: "split_last c s = None \<longleftrightarrow> c \<notin> set s"
  by (simp add: split_last_def Let_def)

lemma account_name_of_domain: "92 \<notin> set name \<Longrightarrow> account_name (domain @ 92 # name) = name"
proof -
  assume name: "92 \<notin> set name"
  obtain a b where s: "split_last 92 (domain @ 92 # name) = Some (a, b)"
    using split_last_None [of 92 "domain @ 92 # name"] by (cases "split_last 92 (domain @ 92 # name)") auto
  from split_last_eq [OF s] name have "name = b" by (metis last_sep_unique)
  with s show ?thesis by (simp add: account_name_def)
qed

text \<open>
  The pipe the listener opens belongs to the pipe namespace directly (no further
  backslash), and only the current user may open it.
\<close>

lemma hex_encode_no_backslash: "92 \<notin> set (hex_encode bs)"
proof -
  have digit: "hex_digit n \<noteq> 92" if "n < 16" for n
  proof
    assume "hex_digit n = 92"
    then have "unat (hex_digit n) = 92" by simp
    with that show False by (auto simp: hex_digit_def split: if_splits)
  qed
  have "unat (b :: byte) div 16 < 16" for b
    using unat_byte_less [of b] by (simp add: less_mult_imp_div_less)
  then have "92 \<notin> set [hex_digit (unat b div 16), hex_digit (unat b mod 16)]" for b :: byte
    using digit [of "unat b div 16"] digit [of "unat b mod 16"] by auto
  then show ?thesis unfolding hex_encode_def by (metis (no_types, lifting) UN_E list.set_map set_concat imageE)
qed

text \<open>The account is what follows the last backslash.\<close>

lemma account_name_iff:
  "account_name username = account \<longleftrightarrow>
     92 \<notin> set account \<and> (username = account \<or> (\<exists>domain. username = domain @ 92 # account))"
proof
  assume eq: "account_name username = account"
  show "92 \<notin> set account \<and> (username = account \<or> (\<exists>domain. username = domain @ 92 # account))"
  proof (cases "split_last 92 username")
    case None
    with eq show ?thesis using split_last_None [of 92 username] by (simp add: account_name_def)
  next
    case (Some p)
    then obtain a b where "split_last 92 username = Some (a, b)" by (cases p) auto
    with eq split_last_eq [OF this] show ?thesis by (auto simp: account_name_def)
  qed
next
  assume "92 \<notin> set account \<and> (username = account \<or> (\<exists>domain. username = domain @ 92 # account))"
  then show "account_name username = account"
    using account_name_of_domain split_last_None [of 92 username] by (auto simp: account_name_def)
qed

lemma padded_class_name: "padded wndClassName = lit ''Pageant'' @ replicate 9 0"
  by (simp add: padded_def wndClassName_def lit_def)

lemma newPageantListener_iff:
  "newPageantListener os = Some l \<longleftrightarrow>
     (\<exists>username account data user.
        os_username os = Some username
        \<and> 92 \<notin> set account \<and> (username = account \<or> (\<exists>domain. username = domain @ 92 # account))
        \<and> os_protect os (lit ''Pageant'' @ replicate 9 0) = Some data
        \<and> GetUserSID os = Inr user
        \<and> os_listen os
            ([92, 92, 46, 92] @ lit ''pipe'' @ [92] @ lit ''pageant.'' @ account @ lit ''.'' @ hex_encode (sha256 data))
            (lit ''D:P(A;;GA;;;'' @ os_sid_text os user @ lit '')'') = Some l)"
    (is "_ \<longleftrightarrow> (\<exists>username account data user. ?opened username account data user)")
proof -
  have opened: "newPageantListener os = Some l \<longleftrightarrow>
     (\<exists>username data user. os_username os = Some username
        \<and> os_protect os (lit ''Pageant'' @ replicate 9 0) = Some data \<and> GetUserSID os = Inr user
        \<and> os_listen os (agent_pipe_name (account_name username) (hex_encode (sha256 data)))
            (user_only_descriptor (os_sid_text os user)) = Some l)"
    by (auto simp: newPageantListener_def capiObfuscateString_def listenUserPipe_def padded_class_name
        split: option.splits sum.splits)
  have account: "?opened username account data user \<longleftrightarrow> account_name username = account
      \<and> os_username os = Some username
      \<and> os_protect os (lit ''Pageant'' @ replicate 9 0) = Some data \<and> GetUserSID os = Inr user
      \<and> os_listen os (agent_pipe_name account (hex_encode (sha256 data)))
          (user_only_descriptor (os_sid_text os user)) = Some l" for username account data user
    unfolding account_name_iff agent_pipe_name_def user_only_descriptor_def by (simp only: conj_ac)
  show ?thesis unfolding opened account by simp
qed

end
