(* ===== verification/Control.thy ===== *)
theory Control
  imports ClientIdentity PipeName
begin

text \<open>
  Talking to a copy that already runs (\<^verbatim>\<open>pageant/control_windows.go\<close>): \<open>matchingProcess\<close>,
  \<open>ExitRunning\<close> and \<open>ShowRunningKeys\<close>. Handles and posted messages are explicit state.
\<close>

definition controlClassName :: gostr where
  "controlClassName = lit ''WinSSHPageantBridge''"

definition showKeysMessage :: u32 where
  "showKeysMessage = 0x8000 + 73"

text \<open>
  \<open>FindWindow\<close> by class and title (0 for none), \<open>GetWindowThreadProcessId\<close>,
  \<open>QueryFullProcessImageName\<close> with its error, \<open>os.Executable\<close>, \<open>PostMessage\<close> and
  \<open>WaitForSingleObject\<close>. \<open>os_same_path\<close> is \<open>strings.EqualFold\<close> of the two
  \<open>filepath.Clean\<close>ed names.
\<close>

record control_os = client_os +
  os_find_window :: "gostr \<Rightarrow> nat"
  os_window_pid :: "nat \<Rightarrow> u32"
  os_executable :: "gostr option"
  os_same_path :: "gostr \<Rightarrow> gostr \<Rightarrow> bool"
  os_post :: "nat \<Rightarrow> u32 \<Rightarrow> bool"
  os_wait :: "handle \<Rightarrow> u32 option"

datatype control_error =
    Open_process_failed
  | Open_token_failed
  | Token_user_failed
  | Own_sid_failed sid_error
  | Image_name_failed
  | Executable_failed
  | Post_failed
  | Wait_failed
  | Wait_status u32

record control_state =
  ct_handles :: "handle list"
  ct_posted :: "(nat \<times> u32) list"

definition hold :: "handle \<Rightarrow> control_state \<Rightarrow> control_state" where
  "hold h s = s\<lparr>ct_handles := acquire h (ct_handles s)\<rparr>"

definition release :: "handle \<Rightarrow> control_state \<Rightarrow> control_state" where
  "release h s = s\<lparr>ct_handles := CloseHandle h (ct_handles s)\<rparr>"

lemma release_hold [simp]: "release h (hold h s) = s" "release h (hold k (hold h s)) = hold k s"
  by (simp_all add: release_def hold_def)

section \<open>The process behind a window\<close>

text \<open>
  What the checks after the token is open conclude: an error, no match, or a match. The
  token is closed in every case, the process handle unless it matches.
\<close>

definition process_matches :: "('a) control_os_scheme \<Rightarrow> handle \<Rightarrow> handle \<Rightarrow> control_error + bool" where
  "process_matches os h token =
     (case os_token_user os token of
        None \<Rightarrow> Inl Token_user_failed
      | Some user \<Rightarrow>
          (case GetUserSID os of
             Inl e \<Rightarrow> Inl (Own_sid_failed e)
           | Inr ours \<Rightarrow>
               if user \<noteq> ours then Inr False
               else case os_image_name os h of
                 None \<Rightarrow> Inl Image_name_failed
               | Some img \<Rightarrow>
                   (case os_executable os of
                      None \<Rightarrow> Inl Executable_failed
                    | Some exe \<Rightarrow> Inr (os_same_path os exe (UTF16ToString img)))))"

definition matchingProcess ::
  "('a) control_os_scheme \<Rightarrow> nat \<Rightarrow> control_state \<Rightarrow> (control_error + handle option) \<times> control_state" where
  "matchingProcess os hwnd s =
     (let pid = os_window_pid os hwnd in
      if pid = 0 then (Inr None, s)
      else case os_open_process os pid of
        None \<Rightarrow> (Inl Open_process_failed, s)
      | Some h \<Rightarrow>
          let s = hold h s in
          (case os_open_token os h of
             None \<Rightarrow> (Inl Open_token_failed, release h s)
           | Some token \<Rightarrow>
               let s = hold token s in
               (case process_matches os h token of
                  Inl e \<Rightarrow> (Inl e, release h (release token s))
                | Inr False \<Rightarrow> (Inr None, release h (release token s))
                | Inr True \<Rightarrow> (Inr (Some h), release token s))))"

text \<open>The window's process runs as this user, from this executable.\<close>

definition own_copy :: "('a) control_os_scheme \<Rightarrow> nat \<Rightarrow> handle \<Rightarrow> bool" where
  "own_copy os hwnd h \<longleftrightarrow>
     os_window_pid os hwnd \<noteq> 0 \<and> os_open_process os (os_window_pid os hwnd) = Some h \<and> same_user os h
     \<and> (\<exists>img exe. os_image_name os h = Some img \<and> os_executable os = Some exe
          \<and> os_same_path os exe (UTF16ToString img))"

lemma matchingProcess_cases:
  obtains (failed) e where "matchingProcess os hwnd s = (Inl e, s)"
  | (other) "matchingProcess os hwnd s = (Inr None, s)"
  | (own) h where "matchingProcess os hwnd s = (Inr (Some h), hold h s)" "own_copy os hwnd h"
proof (cases "os_window_pid os hwnd = 0 \<or> os_open_process os (os_window_pid os hwnd) = None")
  case True
  then have "matchingProcess os hwnd s = (Inr None, s) \<or> matchingProcess os hwnd s = (Inl Open_process_failed, s)"
    by (auto simp: matchingProcess_def Let_def)
  then show ?thesis using failed other by blast
next
  case False
  then obtain h where h: "os_window_pid os hwnd \<noteq> 0" "os_open_process os (os_window_pid os hwnd) = Some h"
    by auto
  show ?thesis
  proof (cases "os_open_token os h")
    case None
    with h have "matchingProcess os hwnd s = (Inl Open_token_failed, s)"
      by (simp add: matchingProcess_def Let_def)
    then show ?thesis by (rule failed)
  next
    case (Some token)
    show ?thesis
    proof (cases "process_matches os h token")
      case (Inl e)
      with h Some have "matchingProcess os hwnd s = (Inl e, s)"
        by (simp add: matchingProcess_def Let_def)
      then show ?thesis by (rule failed)
    next
      case (Inr b)
      have "own_copy os hwnd h" if "b"
        using h Some Inr that
        by (auto simp: own_copy_def same_user_def process_matches_def split: option.splits sum.splits if_splits)
      moreover have "matchingProcess os hwnd s = (if b then (Inr (Some h), hold h s) else (Inr None, s))"
        using h Some Inr by (simp add: matchingProcess_def Let_def)
      ultimately show ?thesis using other own by (cases b) auto
    qed
  qed
qed

section \<open>Asking it to exit\<close>

definition exit_class ::
  "('a) control_os_scheme \<Rightarrow> gostr \<Rightarrow> control_state \<Rightarrow> control_error option option \<times> control_state" where
  "exit_class os class_name s =
     (let hwnd = os_find_window os class_name in
      if hwnd = 0 then (None, s)
      else case matchingProcess os hwnd s of
        (Inl e, s) \<Rightarrow> (Some (Some e), s)
      | (Inr None, s) \<Rightarrow> (None, s)
      | (Inr (Some h), s) \<Rightarrow>
          if \<not> os_post os hwnd WM_CLOSE then (Some (Some Post_failed), release h s)
          else
            let s = release h (s\<lparr>ct_posted := ct_posted s @ [(hwnd, WM_CLOSE)]\<rparr>) in
            (case os_wait os h of
               None \<Rightarrow> (Some (Some Wait_failed), s)
             | Some status \<Rightarrow>
                 (Some (if status = 0 then None else Some (Wait_status status)), s)))"

text \<open>The loop over the two window classes; \<open>None\<close> in \<open>exit_class\<close> is \<open>continue\<close>.\<close>

fun exit_classes ::
  "('a) control_os_scheme \<Rightarrow> gostr list \<Rightarrow> control_state \<Rightarrow> control_error option \<times> control_state" where
  "exit_classes os [] s = (None, s)"
| "exit_classes os (class_name # classes) s =
     (case exit_class os class_name s of
        (None, s) \<Rightarrow> exit_classes os classes s
      | (Some result, s) \<Rightarrow> (result, s))"

definition ExitRunning :: "('a) control_os_scheme \<Rightarrow> control_state \<Rightarrow> control_error option \<times> control_state" where
  "ExitRunning os s = exit_classes os [controlClassName, wndClassName] s"

definition ShowRunningKeys ::
  "('a) control_os_scheme \<Rightarrow> control_state \<Rightarrow> (bool \<times> control_error option) \<times> control_state" where
  "ShowRunningKeys os s =
     (let hwnd = os_find_window os controlClassName in
      if hwnd = 0 then ((False, None), s)
      else case matchingProcess os hwnd s of
        (Inl e, s) \<Rightarrow> ((False, Some e), s)
      | (Inr None, s) \<Rightarrow> ((False, None), s)
      | (Inr (Some h), s) \<Rightarrow>
          if \<not> os_post os hwnd showKeysMessage then ((False, Some Post_failed), release h s)
          else ((True, None), release h (s\<lparr>ct_posted := ct_posted s @ [(hwnd, showKeysMessage)]\<rparr>)))"

section \<open>Properties\<close>

text \<open>
  A message goes out only to a window of this user's copy of this executable, at most one
  in a call, and no handle stays open.
\<close>

definition careful :: "('a) control_os_scheme \<Rightarrow> u32 \<Rightarrow> control_state \<Rightarrow> control_state \<Rightarrow> bool" where
  "careful os msg s s' \<longleftrightarrow> ct_handles s' = ct_handles s
     \<and> (ct_posted s' = ct_posted s
        \<or> (\<exists>hwnd h. hwnd \<noteq> 0 \<and> ct_posted s' = ct_posted s @ [(hwnd, msg)] \<and> own_copy os hwnd h))"

lemma hold_sel [simp]: "ct_handles (hold h s) = acquire h (ct_handles s)" "ct_posted (hold h s) = ct_posted s"
  by (simp_all add: hold_def)

lemma release_sel [simp]:
  "ct_handles (release h s) = CloseHandle h (ct_handles s)" "ct_posted (release h s) = ct_posted s"
  by (simp_all add: release_def)

lemma exit_class_careful:
  "careful os WM_CLOSE s (snd (exit_class os class_name s))"
  "fst (exit_class os class_name s) = None \<Longrightarrow> snd (exit_class os class_name s) = s"
proof -
  let ?hwnd = "os_find_window os class_name"
  show "careful os WM_CLOSE s (snd (exit_class os class_name s))"
    by (cases os ?hwnd s rule: matchingProcess_cases)
      (auto simp: exit_class_def Let_def careful_def split: option.split)
  show "fst (exit_class os class_name s) = None \<Longrightarrow> snd (exit_class os class_name s) = s"
    by (cases os ?hwnd s rule: matchingProcess_cases)
      (auto simp: exit_class_def Let_def split: option.splits if_splits)
qed

lemma exit_classes_careful: "careful os WM_CLOSE s (snd (exit_classes os classes s))"
proof (induction classes arbitrary: s)
  case (Cons class_name classes)
  obtain r s1 where r: "exit_class os class_name s = (r, s1)" by (metis prod.exhaust)
  show ?case
    using exit_class_careful(1) [of os s class_name] exit_class_careful(2) [of os class_name s] Cons [of s]
    by (cases r) (simp_all add: r)
qed (simp add: careful_def)

lemma ExitRunning_careful: "careful os WM_CLOSE s (snd (ExitRunning os s))"
  unfolding ExitRunning_def by (rule exit_classes_careful)

lemma ShowRunningKeys_careful: "careful os showKeysMessage s (snd (ShowRunningKeys os s))"
  by (cases os "os_find_window os controlClassName" s rule: matchingProcess_cases)
    (auto simp: ShowRunningKeys_def Let_def careful_def)

text \<open>It reports that keys are shown exactly when it asked the running copy to show them.\<close>

lemma ShowRunningKeys_shown:
  "fst (fst (ShowRunningKeys os s)) \<longleftrightarrow>
   (\<exists>hwnd. ct_posted (snd (ShowRunningKeys os s)) = ct_posted s @ [(hwnd, showKeysMessage)])"
  by (cases os "os_find_window os controlClassName" s rule: matchingProcess_cases)
    (auto simp: ShowRunningKeys_def Let_def)

end
