(* ===== verification/Lifecycle.thy ===== *)
theory Lifecycle
  imports Control CopyData DesktopQueue Options
begin

text \<open>
  Starting, dispatching and stopping (\<^verbatim>\<open>pageant/run_windows.go\<close>): the window procedures,
  \<open>createWindow\<close>, \<open>runIPCWindow\<close> and \<open>Run\<close>. \<open>Run\<close> is modelled by what it acquires and
  releases, in order, and by how it ends.
\<close>

section \<open>Window procedures\<close>

datatype life_effect = Destroy_own_window nat | Post_quit_message

definition lifecycleWndProc :: "nat \<Rightarrow> u32 \<Rightarrow> nat \<Rightarrow> proc_answer \<times> life_effect list" where
  "lifecycleWndProc hwnd msg wp =
     (if msg = 17 then (Answer 1, [])
      else if msg = 0x16 then (Answer 0, if wp \<noteq> 0 then [Post_quit_message] else [])
      else if msg = WM_CLOSE then (Answer 0, [Destroy_own_window hwnd])
      else if msg = 2 then (Answer 0, [Post_quit_message])
      else (Default_proc, []))"

text \<open>The control window's procedure; \<open>None\<close> while there is no desktop.\<close>

definition wndProc ::
  "('a) tray_os_scheme \<Rightarrow> nat \<Rightarrow> u32 \<Rightarrow> nat \<Rightarrow> u32 \<Rightarrow> desktop option
   \<Rightarrow> (proc_answer \<times> life_effect list) \<times> desktop option" where
  "wndProc os hwnd msg wp lp state =
     (case state of
        None \<Rightarrow> (lifecycleWndProc hwnd msg wp, None)
      | Some d \<Rightarrow>
          if msg = showKeysMessage then ((Answer 0, []), Some (showKeys (base_os os) d))
          else case onMessage os hwnd msg wp lp d of
            (True, d) \<Rightarrow> ((Answer 0, []), Some d)
          | (False, d) \<Rightarrow> (lifecycleWndProc hwnd msg wp, Some d))"

definition WM_COPYDATA :: u32 where "WM_COPYDATA = 74"

definition ipcWndProc ::
  "('a) copydata_os_scheme \<Rightarrow> bool \<Rightarrow> ('s, 'e) request_handler \<Rightarrow> nat \<Rightarrow> u32 \<Rightarrow> nat \<Rightarrow> u64
   \<Rightarrow> 's mapping_state \<Rightarrow> (proc_answer \<times> life_effect list) \<times> 's mapping_state" where
  "ipcWndProc os has_desktop handler hwnd msg wp lp m =
     (if msg = WM_COPYDATA
      then (case handleCopyData os has_desktop handler lp m of
              (served, m) \<Rightarrow> ((Answer (if served then 1 else 0), []), m))
      else (lifecycleWndProc hwnd msg wp, m))"

lemma wndProc_ok:
  assumes "\<forall>d. state = Some d \<longrightarrow> desktop_ok d"
    and "\<And>d. desktop_ok d \<Longrightarrow> desktop_ok (fst (ui_track os d))"
  shows "\<forall>d. snd (wndProc os hwnd msg wp lp state) = Some d \<longrightarrow> desktop_ok d"
  using assms(1) onMessage_ok [of _ os hwnd msg wp lp, OF _ assms(2)] desktop_ok_showKeys
  by (auto simp: wndProc_def split: option.split prod.splits bool.splits) (metis snd_conv)+

section \<open>Resources\<close>

datatype resource =
    Single_instance_mutex
  | Pipe_listener
  | Window_class gostr
  | Window gostr
  | Desktop_object
  | Stop_channel   \<comment> \<open>\<open>stopIPC\<close>, not yet closed; see theory IpcThread for what closing it does\<close>

datatype event =
    Acquire resource
  | Release resource
  | Fix_console
  | Ask_running_copy
  | Start_ipc_thread
  | Start_pipe_proxy
  | Show_key_window
  | Close_clients

text \<open>What is held after a trace; \<open>None\<close> when something is released out of order.\<close>

fun replay :: "resource list \<Rightarrow> event list \<Rightarrow> resource list option" where
  "replay held [] = Some held"
| "replay held (Fix_console # es) = replay held es"
| "replay held (Ask_running_copy # es) = replay held es"
| "replay held (Start_ipc_thread # es) = replay held es"
| "replay held (Start_pipe_proxy # es) = replay held es"
| "replay held (Show_key_window # es) = replay held es"
| "replay held (Close_clients # es) = replay held es"
| "replay held (Acquire r # es) = replay (r # held) es"
| "replay [] (Release r # es) = None"
| "replay (h # held) (Release r # es) = (if h = r then replay held es else None)"

lemma replay_append: "replay held (xs @ ys) = Option.bind (replay held xs) (\<lambda>h. replay h ys)"
  by (induction held xs rule: replay.induct) simp_all

text \<open>\<open>createWindow\<close>: whether it succeeded and what it did; its \<open>cleanup\<close>.\<close>

definition createWindow :: "(gostr \<Rightarrow> bool) \<Rightarrow> (gostr \<Rightarrow> bool) \<Rightarrow> gostr \<Rightarrow> bool \<times> event list" where
  "createWindow register create class_name =
     (if \<not> register class_name then (False, [])
      else if \<not> create class_name
      then (False, [Acquire (Window_class class_name), Release (Window_class class_name)])
      else (True, [Acquire (Window_class class_name), Acquire (Window class_name)]))"

definition cleanup_window :: "gostr \<Rightarrow> event list" where
  "cleanup_window class_name = [Release (Window class_name), Release (Window_class class_name)]"

text \<open>
  The values \<open>GetMessage\<close> returns to a thread, one after another: positive for a message,
  zero for \<open>WM_QUIT\<close>, negative for an error. \<open>None\<close>: the thread still waits.
\<close>

datatype loop_end = Quit | Message_error

fun ui_loop :: "int list \<Rightarrow> loop_end option" where
  "ui_loop [] = None"
| "ui_loop (r # rs) = (if r = -1 then Some Message_error else if r = 0 then Some Quit else ui_loop rs)"

fun ipc_loop :: "int list \<Rightarrow> bool" where
  "ipc_loop [] = False"
| "ipc_loop (r # rs) = (if r > 0 then ipc_loop rs else True)"

text \<open>The thread of the legacy window: what it reports as ready, its trace, whether it ended.\<close>

definition runIPCWindow :: "(gostr \<Rightarrow> bool) \<Rightarrow> (gostr \<Rightarrow> bool) \<Rightarrow> int list \<Rightarrow> bool \<times> event list \<times> bool" where
  "runIPCWindow register create msgs =
     (case createWindow register create wndClassName of
        (False, es) \<Rightarrow> (False, es, True)
      | (True, es) \<Rightarrow>
          if ipc_loop msgs then (True, es @ cleanup_window wndClassName, True)
          else (True, es, False))"

lemma runIPCWindow_balanced:
  "runIPCWindow register create msgs = (ready, es, True) \<Longrightarrow> replay [] es = Some []"
  by (auto simp: runIPCWindow_def createWindow_def cleanup_window_def split: if_splits)

section \<open>Run\<close>

datatype mutex_status = Mutex_created | Mutex_exists | Mutex_failed

record run_os =
  ro_sid :: "gostr option"
  ro_descriptor :: "gostr \<Rightarrow> bool"
  ro_mutex :: "gostr \<Rightarrow> bool \<times> mutex_status"
  ro_show_running :: "bool \<times> bool"
  ro_other_pageant :: bool
  ro_listener :: bool
  ro_register :: "gostr \<Rightarrow> bool"
  ro_create :: "gostr \<Rightarrow> bool"
  ro_desktop :: bool
  ro_messages :: "int list"

datatype run_error =
    No_user_sid
  | No_descriptor
  | Show_keys_failed
  | Another_installation
  | Single_instance_failed
  | Another_agent
  | Pipe_failed
  | Window_failed gostr
  | Desktop_failed
  | Get_message_failed

text \<open>How \<open>Run\<close> ends: with or without an error, or not yet.\<close>

type_synonym run_result = "run_error option option"

definition run_config :: "'h \<Rightarrow> 'h pageant \<Rightarrow> 'h pageant" where
  "run_config defaultHandler p =
     (let p = (if PageantRequestHandler p = None then p\<lparr>PageantRequestHandler := Some defaultHandler\<rparr> else p)
      in if SSHAgentPipe p = [] then p\<lparr>SSHAgentPipe := DefaultSSHAgentPipe\<rparr> else p)"

text \<open>A body between an acquisition and the deferred release, which waits for its end.\<close>

definition deferred :: "event list \<Rightarrow> run_result \<times> event list \<Rightarrow> run_result \<times> event list" where
  "deferred releases body = (fst body, snd body @ (if fst body = None then [] else releases))"

definition before :: "event list \<Rightarrow> run_result \<times> event list \<Rightarrow> run_result \<times> event list" where
  "before acquired body = (fst body, acquired @ snd body)"

definition run_loop :: "run_os \<Rightarrow> run_result" where
  "run_loop os =
     (case ui_loop (ro_messages os) of
        None \<Rightarrow> None
      | Some Quit \<Rightarrow> Some None
      | Some Message_error \<Rightarrow> Some (Some Get_message_failed))"

text \<open>
  After the desktop exists: the legacy window's thread, the pipe proxy, the key window if it
  was asked for, and the message loop. \<open>Run\<close> does not wait for the thread to end: it closes
  the channel \<open>stopIPC\<close>, and it is that channel that is acquired and released here.
\<close>

definition run_threads :: "run_os \<Rightarrow> bool \<Rightarrow> bool \<Rightarrow> run_result \<times> event list" where
  "run_threads os with_pipe show_window =
     before [Acquire Stop_channel, Start_ipc_thread]
       (if \<not> fst (createWindow (ro_register os) (ro_create os) wndClassName)
        then (Some (Some (Window_failed wndClassName)), [Release Stop_channel])
        else
          deferred [Release Stop_channel]
            (run_loop os,
             (if with_pipe then [Start_pipe_proxy] else []) @ (if show_window then [Show_key_window] else [])))"

definition run_windows :: "run_os \<Rightarrow> bool \<Rightarrow> bool \<Rightarrow> run_result \<times> event list" where
  "run_windows os with_pipe show_window =
     (case createWindow (ro_register os) (ro_create os) controlClassName of
        (False, es) \<Rightarrow> (Some (Some (Window_failed controlClassName)), es)
      | (True, es) \<Rightarrow>
          before es (deferred (cleanup_window controlClassName)
            (if \<not> ro_desktop os then (Some (Some Desktop_failed), [])
             else before [Acquire Desktop_object]
                    (deferred [Release Desktop_object] (run_threads os with_pipe show_window)))))"

text \<open>The deferred \<open>closeConnections\<close> closes the listener and then every client and session.\<close>

definition run_agent :: "run_os \<Rightarrow> bool \<Rightarrow> bool \<Rightarrow> run_result \<times> event list" where
  "run_agent os with_pipe show_window =
     (if ro_other_pageant os then (Some (Some Another_agent), [])
      else if with_pipe \<and> \<not> ro_listener os then (Some (Some Pipe_failed), [])
      else
        before (if with_pipe then [Acquire Pipe_listener] else [])
          (deferred ((if with_pipe then [Release Pipe_listener] else []) @ [Close_clients])
            (run_windows os with_pipe show_window)))"

definition run_instance :: "run_os \<Rightarrow> 'h pageant \<Rightarrow> run_result \<times> event list" where
  "run_instance os p =
     (case ro_sid os of
        None \<Rightarrow> (Some (Some No_user_sid), [])
      | Some sid \<Rightarrow>
          if \<not> ro_descriptor os (user_only_descriptor sid) then (Some (Some No_descriptor), [])
          else case ro_mutex os sid of
            (opened, status) \<Rightarrow>
              before (if opened then [Acquire Single_instance_mutex] else [])
                (deferred (if opened then [Release Single_instance_mutex] else [])
                  (case status of
                     Mutex_exists \<Rightarrow>
                       if \<not> ShowKeysOnStart p then (Some None, [])
                       else (Some (case ro_show_running os of
                                (shown, failed) \<Rightarrow>
                                  if failed then Some Show_keys_failed
                                  else if shown then None else Some Another_installation),
                             [Ask_running_copy])
                   | Mutex_failed \<Rightarrow> (Some (Some Single_instance_failed), [])
                   | Mutex_created \<Rightarrow> run_agent os (pageantPipe p) (ShowKeysOnStart p))))"

definition Run :: "'h \<Rightarrow> run_os \<Rightarrow> 'h pageant \<Rightarrow> (run_result \<times> event list) \<times> 'h pageant" where
  "Run defaultHandler os p =
     (let p = run_config defaultHandler p in (before [Fix_console] (run_instance os p), p))"

section \<open>Everything is released, last first\<close>

text \<open>A body is tidy when it leaves the held resources as they were, once it ends.\<close>

definition tidy :: "run_result \<times> event list \<Rightarrow> bool" where
  "tidy body \<longleftrightarrow> (\<forall>held. if fst body = None then \<exists>extra. replay held (snd body) = Some (extra @ held)
     else replay held (snd body) = Some held)"

lemma tidy_bracket:
  assumes "tidy body" "\<And>held. replay held acquired = Some (rs @ held)"
    and "\<And>held. replay (rs @ held) released = Some held"
  shows "tidy (before acquired (deferred released body))"
  unfolding tidy_def
proof
  fix held
  let ?b = "before acquired (deferred released body)"
  show "if fst ?b = None then \<exists>extra. replay held (snd ?b) = Some (extra @ held)
    else replay held (snd ?b) = Some held"
  proof (cases "fst body = None")
    case True
    then obtain extra where "replay (rs @ held) (snd body) = Some (extra @ rs @ held)"
      using assms(1) unfolding tidy_def by (metis (full_types))
    with True assms(2) [of held] show ?thesis
      by (simp add: before_def deferred_def replay_append)
  next
    case False
    then have "replay (rs @ held) (snd body) = Some (rs @ held)"
      using assms(1) unfolding tidy_def by (metis (full_types))
    with False assms(2,3) [of held] show ?thesis
      by (auto simp: before_def deferred_def replay_append)
  qed
qed

lemma tidy_empty [simp]: "tidy (r, [])"
  by (simp add: tidy_def)

lemma tidy_ask [simp]: "tidy (r, [Ask_running_copy])"
  by (simp add: tidy_def)

lemma tidy_threads: "tidy (run_threads os with_pipe show_window)"
proof -
  have "tidy (run_loop os,
      (if with_pipe then [Start_pipe_proxy] else []) @ (if show_window then [Show_key_window] else []))"
    by (simp add: tidy_def)
  then have "tidy (before [Acquire Stop_channel, Start_ipc_thread] (deferred [Release Stop_channel] (run_loop os,
      (if with_pipe then [Start_pipe_proxy] else []) @ (if show_window then [Show_key_window] else []))))"
    by (rule tidy_bracket [where rs = "[Stop_channel]"]) simp_all
  moreover have "tidy (before [Acquire Stop_channel, Start_ipc_thread] (Some r, [Release Stop_channel]))" for r
    by (simp add: tidy_def before_def)
  ultimately show ?thesis by (simp add: run_threads_def)
qed

lemma tidy_windows: "tidy (run_windows os with_pipe show_window)"
proof -
  have d: "tidy (before [Acquire Desktop_object]
      (deferred [Release Desktop_object] (run_threads os with_pipe show_window)))"
    by (rule tidy_bracket [where rs = "[Desktop_object]"]) (simp_all add: tidy_threads)
  have w: "tidy (before [Acquire (Window_class controlClassName), Acquire (Window controlClassName)]
      (deferred (cleanup_window controlClassName) body))" if "tidy body" for body
    by (rule tidy_bracket [where rs = "[Window controlClassName, Window_class controlClassName]"])
      (simp_all add: that cleanup_window_def)
  have f: "tidy (Some r, [Acquire (Window_class c), Release (Window_class c)])" for r c
    by (simp add: tidy_def)
  show ?thesis using d w f by (simp add: run_windows_def createWindow_def)
qed

lemma tidy_agent: "tidy (run_agent os with_pipe show_window)"
proof -
  have "tidy (before (if with_pipe then [Acquire Pipe_listener] else [])
      (deferred ((if with_pipe then [Release Pipe_listener] else []) @ [Close_clients])
        (run_windows os with_pipe show_window)))"
    by (rule tidy_bracket [where rs = "if with_pipe then [Pipe_listener] else []"])
      (simp_all add: tidy_windows)
  then show ?thesis by (simp add: run_agent_def)
qed

lemma tidy_instance: "tidy (run_instance os p)"
proof -
  have b: "tidy (before (if opened then [Acquire Single_instance_mutex] else [])
      (deferred (if opened then [Release Single_instance_mutex] else []) body))" if "tidy body" for opened body
    by (rule tidy_bracket [where rs = "if opened then [Single_instance_mutex] else []"]) (simp_all add: that)
  show ?thesis
  proof (cases "ro_sid os")
    case (Some sid)
    obtain opened status where m: "ro_mutex os sid = (opened, status)" by (cases "ro_mutex os sid")
    show ?thesis
      unfolding run_instance_def Some option.case m prod.case
      by (cases "ro_descriptor os (user_only_descriptor sid)"; cases status)
        (simp_all add: b tidy_agent del: if_split)
  qed (simp add: run_instance_def)
qed

lemma Run_balanced:
  "fst (fst (Run defaultHandler os p)) \<noteq> None \<Longrightarrow> replay [] (snd (fst (Run defaultHandler os p))) = Some []"
  using tidy_instance [of os "run_config defaultHandler p"]
  unfolding tidy_def Run_def before_def Let_def by (simp add: replay_append)

text \<open>What a waiting agent holds, last acquired first.\<close>

definition serving :: "bool \<Rightarrow> resource list" where
  "serving with_pipe =
     [Stop_channel, Desktop_object, Window controlClassName, Window_class controlClassName]
     @ (if with_pipe then [Pipe_listener] else [])"

lemma run_windows_serving:
  assumes "fst (run_windows os with_pipe show_window) = None"
  shows "replay held (snd (run_windows os with_pipe show_window)) = Some (take 4 (serving with_pipe) @ held)
    \<and> (with_pipe \<longrightarrow> Start_pipe_proxy \<in> set (snd (run_windows os with_pipe show_window)))"
  using assms
  by (auto simp: run_windows_def run_threads_def createWindow_def before_def deferred_def serving_def
      split: if_splits)

lemma Run_serving:
  assumes "fst (fst (Run defaultHandler os p)) = None"
  shows "\<exists>sid opened. ro_sid os = Some sid \<and> ro_mutex os sid = (opened, Mutex_created)
    \<and> replay [] (snd (fst (Run defaultHandler os p))) =
        Some (serving (pageantPipe p) @ (if opened then [Single_instance_mutex] else []))"
proof -
  let ?p = "run_config defaultHandler p" and ?r = "fst (Run defaultHandler os p)"
  have p: "pageantPipe ?p = pageantPipe p" by (simp add: run_config_def Let_def)
  from assms have inst: "fst (run_instance os ?p) = None" by (simp add: Run_def before_def Let_def)
  then obtain sid opened where sid: "ro_sid os = Some sid" "ro_mutex os sid = (opened, Mutex_created)"
    and d: "ro_descriptor os (user_only_descriptor sid)"
    and agent: "fst (run_agent os (pageantPipe p) (ShowKeysOnStart ?p)) = None"
    by (auto simp: run_instance_def p before_def deferred_def
        split: option.splits if_splits prod.splits mutex_status.splits)
  then have "fst (run_windows os (pageantPipe p) (ShowKeysOnStart ?p)) = None"
    by (auto simp: run_agent_def before_def deferred_def split: if_splits)
  note run_windows_serving [OF this]
  with sid d agent show ?thesis
    by (auto simp: Run_def run_instance_def p run_agent_def before_def deferred_def replay_append
        Let_def serving_def split: if_splits)
qed

lemma Run_waits_alone:
  "fst (fst (Run defaultHandler os p)) = None \<Longrightarrow> \<not> ro_other_pageant os"
  by (auto simp: Run_def run_instance_def run_agent_def before_def deferred_def Let_def
      split: option.splits prod.splits if_splits mutex_status.splits)

text \<open>
  A window or a pipe is opened only by the process that created the mutex and found no
  other Pageant.
\<close>

lemma Run_only_instance:
  assumes "Acquire r \<in> set (snd (fst (Run defaultHandler os p)))" "r \<noteq> Single_instance_mutex"
  shows "\<exists>sid opened. ro_sid os = Some sid \<and> ro_mutex os sid = (opened, Mutex_created) \<and> \<not> ro_other_pageant os"
  using assms
  by (auto simp: Run_def run_instance_def run_agent_def before_def deferred_def Let_def
      split: option.splits prod.splits if_splits mutex_status.splits)

end
