(* ===== verification/IpcThread.thy ===== *)
theory IpcThread
  imports Machine Lifecycle
begin

text \<open>
  The thread of the legacy window (\<^verbatim>\<open>pageant/run_windows.go\<close>: \<open>runIPCWindow\<close> and the part of
  \<open>Run\<close> that starts and stops it). Three routines meet here: \<open>Run\<close> on the UI thread, the
  thread that owns the hidden window, and the goroutine that waits on \<open>stop\<close> or \<open>done\<close> and
  turns the first into \<open>WM_CLOSE\<close>. Every send, receive and close of a channel and every call
  of Windows is one step; other processes may post and send messages to the window at any
  time.
\<close>

section \<open>The machine\<close>

datatype run_pc =
    R_waiting          \<comment> \<open>at \<open><-ready\<close>\<close>
  | R_serving
  | R_returned         \<comment> \<open>\<open>stopIPC\<close> is closed\<close>

datatype ipc_pc =
    I_creating
  | I_reporting bool   \<comment> \<open>before \<open>ready <- err\<close>; whether the window was created\<close>
  | I_spawning         \<comment> \<open>before the goroutine is started\<close>
  | I_loop
  | I_closing_done     \<comment> \<open>the deferred calls, last first\<close>
  | I_cleaning
  | I_ended

datatype stopper_pc = S_none | S_waiting | S_posting | S_ended

record ipc =
  run_at :: run_pc
  ipc_at :: ipc_pc
  stopper_at :: stopper_pc
  ready_chan :: "bool option"
  stop_closed :: bool
  done_closed :: bool
  class_there :: bool
  window_there :: bool
  msg_queue :: "(u32 \<times> nat) list"
  quit_flag :: bool

definition init_ipc :: "ipc \<Rightarrow> bool" where
  "init_ipc s \<longleftrightarrow> s = \<lparr>run_at = R_waiting, ipc_at = I_creating, stopper_at = S_none, ready_chan = None,
     stop_closed = False, done_closed = False, class_there = False, window_there = False,
     msg_queue = [], quit_flag = False\<rparr>"

text \<open>
  The window's procedure on the effects of \<open>lifecycleWndProc\<close>: \<open>DestroyWindow\<close> sends
  \<open>WM_DESTROY\<close> (2) to the procedure and empties the queue; \<open>PostQuitMessage\<close> sets a flag.
\<close>

definition destroy_window :: "ipc \<Rightarrow> ipc" where
  "destroy_window s =
     (if window_there s
      then s\<lparr>window_there := False, msg_queue := [],
             quit_flag := quit_flag s \<or> Post_quit_message \<in> set (snd (lifecycleWndProc 0 2 0))\<rparr>
      else s)"

definition ipc_effect :: "life_effect \<Rightarrow> ipc \<Rightarrow> ipc" where
  "ipc_effect e s =
     (case e of
        Destroy_own_window _ \<Rightarrow> destroy_window s
      | Post_quit_message \<Rightarrow> s\<lparr>quit_flag := True\<rparr>)"

definition ipc_message :: "u32 \<times> nat \<Rightarrow> ipc \<Rightarrow> ipc" where
  "ipc_message m s =
     (if fst m = WM_COPYDATA then s else fold ipc_effect (snd (lifecycleWndProc 0 (fst m) (snd m))) s)"

abbreviation WM_QUIT :: u32 where "WM_QUIT \<equiv> 18"

text \<open>The steps of the program. \<open>reliable\<close>: \<open>PostMessage\<close> to an existing window succeeds.\<close>

inductive ipc_step :: "bool \<Rightarrow> ipc \<Rightarrow> ipc \<Rightarrow> bool" for reliable :: bool where
  create: "ipc_at s = I_creating \<Longrightarrow>
     ipc_step reliable s (s\<lparr>ipc_at := I_reporting True, class_there := True, window_there := True\<rparr>)"
| create_fails: "ipc_at s = I_creating \<Longrightarrow> ipc_step reliable s (s\<lparr>ipc_at := I_reporting False\<rparr>)"
| report: "ipc_at s = I_reporting ok \<Longrightarrow> ready_chan s = None \<Longrightarrow>
     ipc_step reliable s (s\<lparr>ipc_at := if ok then I_spawning else I_ended, ready_chan := Some ok\<rparr>)"
| spawn: "ipc_at s = I_spawning \<Longrightarrow> ipc_step reliable s (s\<lparr>ipc_at := I_loop, stopper_at := S_waiting\<rparr>)"
| dispatch: "ipc_at s = I_loop \<Longrightarrow> msg_queue s = m # ms \<Longrightarrow> fst m \<noteq> WM_QUIT \<Longrightarrow>
     ipc_step reliable s (ipc_message m (s\<lparr>msg_queue := ms\<rparr>))"
| posted_quit: "ipc_at s = I_loop \<Longrightarrow> msg_queue s = (WM_QUIT, wp) # ms \<Longrightarrow>
     ipc_step reliable s (s\<lparr>ipc_at := I_closing_done, msg_queue := ms\<rparr>)"
| quit: "ipc_at s = I_loop \<Longrightarrow> msg_queue s = [] \<Longrightarrow> quit_flag s \<Longrightarrow>
     ipc_step reliable s (s\<lparr>ipc_at := I_closing_done\<rparr>)"
| close_done: "ipc_at s = I_closing_done \<Longrightarrow>
     ipc_step reliable s (s\<lparr>ipc_at := I_cleaning, done_closed := True\<rparr>)"
| clean_up: "ipc_at s = I_cleaning \<Longrightarrow>
     ipc_step reliable s ((destroy_window s)\<lparr>ipc_at := I_ended, class_there := False\<rparr>)"
| stop_seen: "stopper_at s = S_waiting \<Longrightarrow> stop_closed s \<Longrightarrow> ipc_step reliable s (s\<lparr>stopper_at := S_posting\<rparr>)"
| done_seen: "stopper_at s = S_waiting \<Longrightarrow> done_closed s \<Longrightarrow> ipc_step reliable s (s\<lparr>stopper_at := S_ended\<rparr>)"
| post_close: "stopper_at s = S_posting \<Longrightarrow>
     ipc_step reliable s (s\<lparr>stopper_at := S_ended,
       msg_queue := msg_queue s @ (if window_there s then [(WM_CLOSE, 0)] else [])\<rparr>)"
| post_lost: "stopper_at s = S_posting \<Longrightarrow> \<not> reliable \<Longrightarrow> ipc_step reliable s (s\<lparr>stopper_at := S_ended\<rparr>)"
| started: "run_at s = R_waiting \<Longrightarrow> ready_chan s = Some True \<Longrightarrow>
     ipc_step reliable s (s\<lparr>run_at := R_serving, ready_chan := None\<rparr>)"
| start_failed: "run_at s = R_waiting \<Longrightarrow> ready_chan s = Some False \<Longrightarrow>
     ipc_step reliable s (s\<lparr>run_at := R_returned, ready_chan := None, stop_closed := True\<rparr>)"
| run_returns: "run_at s = R_serving \<Longrightarrow> ipc_step reliable s (s\<lparr>run_at := R_returned, stop_closed := True\<rparr>)"

text \<open>
  What others do: post a message, send one (dispatched while the thread waits in
  \<open>GetMessage\<close>), and \<open>GetMessage\<close> reporting an error.
\<close>

inductive ipc_outside :: "ipc \<Rightarrow> ipc \<Rightarrow> bool" where
  posted: "window_there s \<Longrightarrow> ipc_outside s (s\<lparr>msg_queue := msg_queue s @ [m]\<rparr>)"
| sent: "ipc_at s = I_loop \<Longrightarrow> window_there s \<Longrightarrow> ipc_outside s (ipc_message m s)"
| message_error: "ipc_at s = I_loop \<Longrightarrow> ipc_outside s (s\<lparr>ipc_at := I_closing_done\<rparr>)"

definition ipc_any :: "bool \<Rightarrow> ipc \<Rightarrow> ipc \<Rightarrow> bool" where
  "ipc_any reliable s t \<longleftrightarrow> ipc_step reliable s t \<or> ipc_outside s t"

section \<open>What a message does\<close>

lemma destroy_window_sel [simp]:
  "run_at (destroy_window s) = run_at s" "ipc_at (destroy_window s) = ipc_at s"
  "stopper_at (destroy_window s) = stopper_at s" "ready_chan (destroy_window s) = ready_chan s"
  "stop_closed (destroy_window s) = stop_closed s" "done_closed (destroy_window s) = done_closed s"
  "class_there (destroy_window s) = class_there s" "\<not> window_there (destroy_window s)"
  by (simp_all add: destroy_window_def)

lemma destroy_window_quits [simp]: "quit_flag (destroy_window s) \<longleftrightarrow> quit_flag s \<or> window_there s"
  by (simp add: destroy_window_def lifecycleWndProc_def WM_CLOSE_def)

lemma destroy_window_queue: "length (msg_queue (destroy_window s)) \<le> length (msg_queue s)"
  by (simp add: destroy_window_def)

text \<open>Every message leaves the window as it is, destroys it, or sets the quit flag.\<close>

lemma ipc_message_cases:
  obtains (same) "ipc_message m s = s" "fst m \<noteq> WM_CLOSE"
  | (destroyed) "ipc_message m s = destroy_window s"
  | (quits) "ipc_message m s = s\<lparr>quit_flag := True\<rparr>" "fst m \<noteq> WM_CLOSE"
proof -
  consider (d) "fst m = WM_CLOSE" | (q) "fst m \<noteq> WM_CLOSE" by blast
  then show ?thesis
  proof cases
    case d
    then have "ipc_message m s = destroy_window s"
      by (simp add: ipc_message_def lifecycleWndProc_def ipc_effect_def WM_COPYDATA_def WM_CLOSE_def)
    then show ?thesis by (rule destroyed)
  next
    case q
    then have "snd (lifecycleWndProc 0 (fst m) (snd m)) \<in> {[], [Post_quit_message]}"
      by (simp add: lifecycleWndProc_def)
    then have "ipc_message m s = s \<or> ipc_message m s = s\<lparr>quit_flag := True\<rparr>"
      by (auto simp: ipc_message_def ipc_effect_def)
    then show ?thesis using same quits q by blast
  qed
qed

section \<open>The invariant\<close>

text \<open>
  Where the thread is decides what exists and what \<open>Run\<close> can have seen. A closing goroutine
  that has ended while the thread still loops has left a \<open>WM_CLOSE\<close> in the queue, or the
  thread was already told to quit.
\<close>

definition reported :: "bool \<Rightarrow> run_pc set \<Rightarrow> ipc \<Rightarrow> bool" where
  "reported ok later s \<longleftrightarrow> (if ready_chan s = None then run_at s \<in> later
     else run_at s = R_waiting \<and> ready_chan s = Some ok)"

definition unreported :: "ipc \<Rightarrow> bool" where
  "unreported s \<longleftrightarrow> run_at s = R_waiting \<and> ready_chan s = None \<and> stopper_at s = S_none \<and> \<not> done_closed s"

abbreviation up :: "ipc \<Rightarrow> bool" where
  "up \<equiv> reported True {R_serving, R_returned}"

fun thread_inv :: "bool \<Rightarrow> ipc_pc \<Rightarrow> ipc \<Rightarrow> bool" where
  "thread_inv reliable I_creating s \<longleftrightarrow> unreported s \<and> \<not> class_there s \<and> \<not> window_there s"
| "thread_inv reliable (I_reporting ok) s \<longleftrightarrow> unreported s \<and> class_there s = ok \<and> window_there s = ok"
| "thread_inv reliable I_spawning s \<longleftrightarrow>
     up s \<and> stopper_at s = S_none \<and> \<not> done_closed s \<and> class_there s \<and> window_there s"
| "thread_inv reliable I_loop s \<longleftrightarrow>
     up s \<and> stopper_at s \<noteq> S_none \<and> \<not> done_closed s \<and> class_there s \<and> (window_there s \<or> quit_flag s)
     \<and> (reliable \<and> stopper_at s = S_ended \<longrightarrow> quit_flag s \<or> WM_CLOSE \<in> fst ` set (msg_queue s))"
| "thread_inv reliable I_closing_done s \<longleftrightarrow>
     up s \<and> stopper_at s \<noteq> S_none \<and> \<not> done_closed s \<and> class_there s"
| "thread_inv reliable I_cleaning s \<longleftrightarrow> up s \<and> stopper_at s \<noteq> S_none \<and> done_closed s \<and> class_there s"
| "thread_inv reliable I_ended s \<longleftrightarrow> \<not> class_there s \<and> \<not> window_there s
     \<and> (if done_closed s then up s \<and> stopper_at s \<noteq> S_none
        else reported False {R_returned} s \<and> stopper_at s = S_none)"

definition ipc_inv :: "bool \<Rightarrow> ipc \<Rightarrow> bool" where
  "ipc_inv reliable s \<longleftrightarrow> thread_inv reliable (ipc_at s) s
     \<and> (stop_closed s \<longleftrightarrow> run_at s = R_returned) \<and> (stopper_at s = S_posting \<longrightarrow> run_at s = R_returned)"

lemma ipc_inv_init: "init_ipc s \<Longrightarrow> ipc_inv reliable s"
  by (simp add: init_ipc_def ipc_inv_def unreported_def)

lemma reported_sel [simp]:
  "reported ok later (s\<lparr>ipc_at := a\<rparr>) = reported ok later s"
  "reported ok later (s\<lparr>stopper_at := b\<rparr>) = reported ok later s"
  "reported ok later (s\<lparr>done_closed := c\<rparr>) = reported ok later s"
  "reported ok later (s\<lparr>class_there := d\<rparr>) = reported ok later s"
  "reported ok later (s\<lparr>msg_queue := q\<rparr>) = reported ok later s"
  "reported ok later (s\<lparr>quit_flag := f\<rparr>) = reported ok later s"
  "reported ok later (destroy_window s) = reported ok later s"
  by (simp_all add: reported_def)

text \<open>Dispatching keeps the invariant, also the queue's part of it when \<open>m\<close> is taken from the queue.\<close>

lemma ipc_inv_message:
  assumes "thread_inv False I_loop s" "ipc_at s = I_loop"
    and "stop_closed s \<longleftrightarrow> run_at s = R_returned" "stopper_at s = S_posting \<longrightarrow> run_at s = R_returned"
    and "reliable \<and> stopper_at s = S_ended \<longrightarrow>
      quit_flag s \<or> fst m = WM_CLOSE \<or> WM_CLOSE \<in> fst ` set (msg_queue s)"
  shows "ipc_inv reliable (ipc_message m s)"
  by (rule ipc_message_cases [of m s]) (use assms in \<open>simp_all add: ipc_inv_def disj_commute\<close>)

lemma ipc_inv_step: "ipc_step reliable s t \<Longrightarrow> ipc_inv reliable s \<Longrightarrow> ipc_inv reliable t"
proof (induction rule: ipc_step.induct)
  case (dispatch s m ms)
  then show ?case by (intro ipc_inv_message) (auto simp: ipc_inv_def)
next
  case (report s ok)
  then show ?case by (cases ok) (simp_all add: ipc_inv_def unreported_def reported_def)
next
  case (stop_seen s)
  then show ?case by (cases "ipc_at s") (auto simp: ipc_inv_def unreported_def split: if_splits)
next
  case (done_seen s)
  then show ?case by (cases "ipc_at s") (auto simp: ipc_inv_def unreported_def split: if_splits)
next
  case (post_close s)
  then show ?case by (cases "ipc_at s") (auto simp: ipc_inv_def unreported_def split: if_splits)
next
  case (post_lost s)
  then show ?case by (cases "ipc_at s") (auto simp: ipc_inv_def unreported_def split: if_splits)
next
  case (started s)
  then show ?case by (cases "ipc_at s") (auto simp: ipc_inv_def unreported_def reported_def split: if_splits)
next
  case (start_failed s)
  then show ?case by (cases "ipc_at s") (auto simp: ipc_inv_def unreported_def reported_def split: if_splits)
next
  case (run_returns s)
  then show ?case by (cases "ipc_at s") (auto simp: ipc_inv_def unreported_def reported_def split: if_splits)
qed (simp_all add: ipc_inv_def unreported_def)

lemma ipc_inv_outside: "ipc_outside s t \<Longrightarrow> ipc_inv reliable s \<Longrightarrow> ipc_inv reliable t"
proof (induction rule: ipc_outside.induct)
  case (posted s m)
  then show ?case by (cases "ipc_at s") (auto simp: ipc_inv_def unreported_def)
next
  case (sent s m)
  then show ?case by (intro ipc_inv_message) (auto simp: ipc_inv_def)
next
  case (message_error s)
  then show ?case by (auto simp: ipc_inv_def)
qed

section \<open>Stopping\<close>

fun ipc_rank :: "ipc_pc \<Rightarrow> nat" where
  "ipc_rank I_creating = 9"
| "ipc_rank (I_reporting ok) = 8"
| "ipc_rank I_spawning = 7"
| "ipc_rank I_loop = 3"
| "ipc_rank I_closing_done = 2"
| "ipc_rank I_cleaning = 1"
| "ipc_rank I_ended = 0"

fun stopper_rank :: "stopper_pc \<Rightarrow> nat" where
  "stopper_rank S_waiting = 3"
| "stopper_rank S_posting = 2"
| "stopper_rank _ = 0"

definition stop_rank :: "ipc \<Rightarrow> nat" where
  "stop_rank s = ipc_rank (ipc_at s) + stopper_rank (stopper_at s) + length (msg_queue s)"

lemma stop_rank_message: "stop_rank (ipc_message m s) \<le> stop_rank s"
  by (cases rule: ipc_message_cases [of m s]) (simp_all add: stop_rank_def destroy_window_queue)

lemma stop_rank_step:
  "ipc_step reliable s t \<Longrightarrow> ipc_inv reliable s \<Longrightarrow> stop_closed s \<Longrightarrow> stop_rank t < stop_rank s"
proof (induction rule: ipc_step.induct)
  case (dispatch s m ms)
  then show ?case
    using stop_rank_message [of m "s\<lparr>msg_queue := ms\<rparr>"] by (simp add: stop_rank_def)
next
  case (clean_up s)
  then show ?case using destroy_window_queue [of s] by (simp add: stop_rank_def)
qed (auto simp: stop_rank_def ipc_inv_def unreported_def reported_def)

lemma message_keeps_stop [simp]: "stop_closed (ipc_message m s) = stop_closed s"
  by (cases rule: ipc_message_cases [of m s]) simp_all

lemma stop_stays: "ipc_step reliable s t \<Longrightarrow> stop_closed s \<Longrightarrow> stop_closed t"
  by (induction rule: ipc_step.induct) simp_all

interpretation legacy: machine_invariant init_ipc "ipc_any reliable" "ipc_inv reliable"
  by unfold_locales (auto simp: ipc_any_def intro: ipc_inv_init ipc_inv_step ipc_inv_outside)

interpretation legacy_stop: ranked_phase init_ipc "ipc_step reliable" "ipc_inv reliable" stop_closed stop_rank
  by unfold_locales (auto intro: ipc_inv_init ipc_inv_step stop_rank_step stop_stays)

lemma stop_rank_bound: "ipc_inv reliable s \<Longrightarrow> stop_closed s \<Longrightarrow> stop_rank s \<le> 7 + length (msg_queue s)"
  by (cases "ipc_at s"; cases "stopper_at s") (auto simp: stop_rank_def ipc_inv_def unreported_def)

text \<open>Everything the thread made is gone, and no routine is left.\<close>

definition legacy_gone :: "ipc \<Rightarrow> bool" where
  "legacy_gone s \<longleftrightarrow> ipc_at s = I_ended \<and> stopper_at s \<in> {S_none, S_ended} \<and> \<not> window_there s \<and> \<not> class_there s"

lemma loop_can_step:
  assumes "ipc_at s = I_loop" "msg_queue s \<noteq> [] \<or> quit_flag s"
  shows "\<exists>t. ipc_step reliable s t"
proof (cases "msg_queue s")
  case (Cons m ms)
  show ?thesis
  proof (cases "fst m = WM_QUIT")
    case True
    with Cons have "msg_queue s = (WM_QUIT, snd m) # ms" by (cases m) simp
    from posted_quit [OF assms(1) this] show ?thesis by blast
  qed (use dispatch [OF assms(1) Cons] in blast)
qed (use assms in \<open>blast intro: quit\<close>)

lemma end_is_gone:
  assumes "ipc_inv True s" "stop_closed s" "\<nexists>t. ipc_step True s t"
  shows "legacy_gone s"
proof -
  have stopper: "stopper_at s \<in> {S_none, S_ended}"
    using assms(2,3) stop_seen post_close by (cases "stopper_at s") blast+
  have "ipc_at s \<noteq> I_loop"
  proof
    assume l: "ipc_at s = I_loop"
    with stopper assms(1) have "quit_flag s \<or> msg_queue s \<noteq> []" by (auto simp: ipc_inv_def)
    with loop_can_step [OF l] assms(3) show False by blast
  qed
  moreover have "ipc_at s \<noteq> I_creating \<and> ipc_at s \<noteq> I_reporting ok" for ok
    using assms(1,2) by (auto simp: ipc_inv_def unreported_def)
  moreover have "ipc_at s \<noteq> I_spawning \<and> ipc_at s \<noteq> I_closing_done \<and> ipc_at s \<noteq> I_cleaning"
    using assms(3) spawn close_done clean_up by blast
  ultimately have "ipc_at s = I_ended" by (cases "ipc_at s") blast+
  with stopper assms(1) show ?thesis by (auto simp: legacy_gone_def ipc_inv_def)
qed

end
