(* ===== verification/Flags.thy ===== *)
theory Flags
  imports Options GoStrings
begin

text \<open>
  The command line of the program (\<^verbatim>\<open>main.go\<close>): its flags and how Go's \<open>flag.Parse\<close> reads
  them. The \<open>flag\<close> package ends the process with code 0 when help is asked for and with 2
  when an argument is wrong.
\<close>

record flags =
  fl_sshpipe :: gostr
  fl_no_pageant_pipe :: bool
  fl_exit :: bool
  fl_show_keys :: bool
  fl_version :: bool

definition default_flags :: flags where
  "default_flags = \<lparr>fl_sshpipe = DefaultSSHAgentPipe, fl_no_pageant_pipe = False, fl_exit = False,
     fl_show_keys = False, fl_version = False\<rparr>"

datatype flag_error = Help_wanted | Bad_syntax | Not_defined | Bad_boolean | Needs_argument

text \<open>\<open>strconv.ParseBool\<close>.\<close>

definition ParseBool :: "gostr \<Rightarrow> bool option" where
  "ParseBool s =
     (if s \<in> set (map lit [''1'', ''t'', ''T'', ''true'', ''TRUE'', ''True'']) then Some True
      else if s \<in> set (map lit [''0'', ''f'', ''F'', ''false'', ''FALSE'', ''False'']) then Some False
      else None)"

definition bool_flag :: "gostr \<Rightarrow> (bool \<Rightarrow> flags \<Rightarrow> flags) option" where
  "bool_flag name =
     (if name = lit ''no-pageant-pipe'' then Some (\<lambda>b f. f\<lparr>fl_no_pageant_pipe := b\<rparr>)
      else if name = lit ''exit'' then Some (\<lambda>b f. f\<lparr>fl_exit := b\<rparr>)
      else if name = lit ''show-keys'' then Some (\<lambda>b f. f\<lparr>fl_show_keys := b\<rparr>)
      else if name = lit ''version'' then Some (\<lambda>b f. f\<lparr>fl_version := b\<rparr>)
      else None)"

text \<open>Name and value at the first equals sign (61).\<close>

definition split_flag :: "gostr \<Rightarrow> gostr \<times> gostr option" where
  "split_flag s = (before_first 61 s, if 61 \<in> set s then Some (tl (dropWhile (\<lambda>b. b \<noteq> 61) s)) else None)"

text \<open>One or two dashes (45) start a flag; two alone, or any other argument, end the flags.\<close>

fun parse_flags :: "flags \<Rightarrow> gostr list \<Rightarrow> flag_error + flags" where
  "parse_flags f [] = Inr f"
| "parse_flags f (s # args) =
     (if length s < 2 \<or> hd s \<noteq> 45 \<or> s = [45, 45] then Inr f
      else let name = (if s ! 1 = 45 then drop 2 s else drop 1 s) in
        if hd name = 45 \<or> hd name = 61 then Inl Bad_syntax
        else let (name, val) = split_flag name in
          case bool_flag name of
            Some set_flag \<Rightarrow>
              (case val of
                 None \<Rightarrow> parse_flags (set_flag True f) args
               | Some v \<Rightarrow>
                   (case ParseBool v of
                      None \<Rightarrow> Inl Bad_boolean
                    | Some b \<Rightarrow> parse_flags (set_flag b f) args))
          | None \<Rightarrow>
              if name = lit ''sshpipe'' then
                (case (val, args) of
                   (Some v, _) \<Rightarrow> parse_flags (f\<lparr>fl_sshpipe := v\<rparr>) args
                 | (None, v # args) \<Rightarrow> parse_flags (f\<lparr>fl_sshpipe := v\<rparr>) args
                 | (None, []) \<Rightarrow> Inl Needs_argument)
              else Inl (if name = lit ''help'' \<or> name = lit ''h'' then Help_wanted else Not_defined))"

text \<open>Every setting of the flags has a command line, whatever the name of the pipe.\<close>

definition bool_text :: "bool \<Rightarrow> gostr" where
  "bool_text b = (if b then lit ''true'' else lit ''false'')"

definition flag_args :: "flags \<Rightarrow> gostr list" where
  "flag_args f =
     [lit ''-sshpipe='' @ fl_sshpipe f, lit ''-no-pageant-pipe='' @ bool_text (fl_no_pageant_pipe f),
      lit ''--exit='' @ bool_text (fl_exit f), lit ''-show-keys='' @ bool_text (fl_show_keys f),
      lit ''--version='' @ bool_text (fl_version f)]"

lemma ParseBool_text: "ParseBool (bool_text b) = Some b"
  by (simp add: ParseBool_def bool_text_def lit_def)

lemma parse_flag_args: "parse_flags g (flag_args f @ rest) = parse_flags f rest"
  unfolding flag_args_def
  by (cases f; cases g)
    (simp add: lit_def split_flag_def before_first_def bool_flag_def ParseBool_text Let_def)

end
