(* ===== verification/Console.thy ===== *)
theory Console
  imports Prelude
begin

text \<open>
  Console output of a windowed program (\<^verbatim>\<open>internal/win/consoleoutput.go\<close>): \<open>AttachConsole\<close> and
  \<open>FixConsoleIfNeeded\<close>, which runs its body once and keeps its result.
\<close>

type_synonym std_handle = nat

text \<open>
  \<open>AttachConsole\<close>'s result and error code, and the standard handles before and after it
  (\<open>None\<close> for a failed lookup, 0 or \<open>InvalidHandle\<close> for none).
\<close>

record console_os =
  co_attach :: "bool \<times> u32"
  co_stdout :: "bool \<Rightarrow> std_handle option"
  co_stderr :: "bool \<Rightarrow> std_handle option"
  co_invalid :: std_handle

record console_state =
  cs_done :: bool
  cs_error :: "u32 option"
  cs_attached :: nat
  cs_stdout :: "std_handle option" \<comment> \<open>a replacement for the original file\<close>
  cs_stderr :: "std_handle option"
  cs_log :: "std_handle option" \<comment> \<open>the stream the log writes to\<close>
  cs_originals :: "(std_handle option \<times> std_handle option) option"

definition AttachConsole :: "console_os \<Rightarrow> u32 option" where
  "AttachConsole os =
     (case co_attach os of
        (ok, err) \<Rightarrow> if ok \<or> err = 6 \<or> err = 5 then None else Some err)"

definition valid_handle :: "console_os \<Rightarrow> std_handle option \<Rightarrow> bool" where
  "valid_handle os h = (case h of None \<Rightarrow> False | Some v \<Rightarrow> v \<noteq> 0 \<and> v \<noteq> co_invalid os)"

text \<open>The replacement for a stream: the handle found after attaching, when it is valid.\<close>

definition replacement :: "console_os \<Rightarrow> (bool \<Rightarrow> std_handle option) \<Rightarrow> bool \<Rightarrow> std_handle option \<Rightarrow> std_handle option" where
  "replacement os lookup attached current =
     (if valid_handle os (lookup False) then current
      else if valid_handle os (lookup attached) then lookup attached
      else current)"

definition FixConsoleIfNeeded :: "console_os \<Rightarrow> console_state \<Rightarrow> u32 option \<times> console_state" where
  "FixConsoleIfNeeded os s =
     (if cs_done s then (cs_error s, s)
      else
        let attach = \<not> valid_handle os (co_stdout os False) \<and> \<not> valid_handle os (co_stderr os False);
            err = (if attach then AttachConsole os else cs_error s);
            stderr = replacement os (co_stderr os) attach (cs_stderr s);
            s = s\<lparr>cs_done := True, cs_error := err,
                  cs_attached := cs_attached s + (if attach then 1 else 0),
                  cs_stdout := replacement os (co_stdout os) attach (cs_stdout s),
                  cs_stderr := stderr, cs_log := stderr,
                  cs_originals := Some (cs_stdout s, cs_stderr s)\<rparr>
        in (err, s))"

definition fresh_console :: console_state where
  "fresh_console = \<lparr>cs_done = False, cs_error = None, cs_attached = 0, cs_stdout = None, cs_stderr = None,
     cs_log = None, cs_originals = None\<rparr>"

definition PrepareConsole :: "console_os \<Rightarrow> console_state \<Rightarrow> console_state" where
  "PrepareConsole os s = snd (FixConsoleIfNeeded os s)"

text \<open>
  Output that a shell or an installer redirected is left alone; a console is attached only
  when neither stream is usable; a second call changes nothing and reports the same.
\<close>

lemma FixConsole_twice:
  "FixConsoleIfNeeded os2 (snd (FixConsoleIfNeeded os s)) =
    (fst (FixConsoleIfNeeded os s), snd (FixConsoleIfNeeded os s))"
  by (simp add: FixConsoleIfNeeded_def Let_def)

lemma FixConsole_redirected:
  "(valid_handle os (co_stdout os False) \<longrightarrow> cs_stdout (snd (FixConsoleIfNeeded os s)) = cs_stdout s)
   \<and> (valid_handle os (co_stderr os False) \<longrightarrow> cs_stderr (snd (FixConsoleIfNeeded os s)) = cs_stderr s)
   \<and> (valid_handle os (co_stdout os False) \<or> valid_handle os (co_stderr os False)
        \<longrightarrow> cs_attached (snd (FixConsoleIfNeeded os s)) = cs_attached s)"
  by (auto simp: FixConsoleIfNeeded_def Let_def replacement_def)

lemma FixConsole_attached:
  "cs_attached (snd (FixConsoleIfNeeded os s)) \<le> Suc (cs_attached s)"
  "cs_done (snd (FixConsoleIfNeeded os s))"
  "cs_done s \<Longrightarrow> FixConsoleIfNeeded os s = (cs_error s, s)"
  "\<not> cs_done s \<Longrightarrow> cs_log (snd (FixConsoleIfNeeded os s)) = cs_stderr (snd (FixConsoleIfNeeded os s))"
  by (simp_all add: FixConsoleIfNeeded_def Let_def)

end
