(* ===== verification/Program.thy ===== *)
theory Program
  imports Lifecycle Flags Console
begin

text \<open>
  The program (\<^verbatim>\<open>main.go\<close>), with the console, the running copy it may talk to and \<open>Run\<close>
  joined in one state: \<open>main\<close> prepares the console, reads the flags and then prints the
  version, stops the running copy, asks it to show its keys, or becomes the agent.
\<close>

section \<open>The state\<close>

datatype program_error = Console_failed u32 | Control_failed control_error | Run_failed run_error

datatype utterance = Version_printed | Logged program_error | Box program_error

record program =
  pg_console :: console_state
  pg_control :: control_state
  pg_events :: "event list"
  pg_output :: "utterance list"

record program_os =
  po_console :: console_os
  po_control :: control_os
  po_run :: run_os

definition say :: "utterance \<Rightarrow> program \<Rightarrow> program" where
  "say out s = s\<lparr>pg_output := pg_output s @ [out]\<rparr>"

text \<open>\<open>ShowError\<close> shows a message box.\<close>

definition ShowError :: "program_error \<Rightarrow> program \<Rightarrow> program" where
  "ShowError e s = say (Box e) s"

section \<open>Run\<close>

text \<open>
  \<open>Run\<close> on this state: it logs a console error and goes on; the running copy is asked when
  its trace says so, and its answer is what \<open>Run\<close> sees.
\<close>

definition run_program :: "'h \<Rightarrow> program_os \<Rightarrow> 'h pageant \<Rightarrow> program \<Rightarrow> run_result \<times> program" where
  "run_program defaultHandler os p s =
     (let (err, console) = FixConsoleIfNeeded (po_console os) (pg_console s);
          s = (case err of None \<Rightarrow> s | Some e \<Rightarrow> say (Logged (Console_failed e)) s)\<lparr>pg_console := console\<rparr>;
          ((shown, failed), ctl) = ShowRunningKeys (po_control os) (pg_control s);
          ((result, events), _) = Run defaultHandler ((po_run os)\<lparr>ro_show_running := (shown, failed \<noteq> None)\<rparr>) p
      in (result, s\<lparr>pg_events := pg_events s @ events,
                    pg_control := if Ask_running_copy \<in> set events then ctl else pg_control s\<rparr>))"

section \<open>main\<close>

text \<open>The exit code with the state; no exit code while the agent serves.\<close>

definition start_agent :: "'h \<Rightarrow> program_os \<Rightarrow> flags \<Rightarrow> program \<Rightarrow> nat option \<times> program" where
  "start_agent defaultHandler os f s =
     (let p = (NewDefaultHandler defaultHandler (fl_sshpipe f) (\<not> fl_no_pageant_pipe f))
                \<lparr>ShowKeysOnStart := fl_show_keys f\<rparr>
      in case run_program defaultHandler os p s of
           (None, s) \<Rightarrow> (None, s)
         | (Some None, s) \<Rightarrow> (Some 0, s)
         | (Some (Some e), s) \<Rightarrow> (Some 1, ShowError (Run_failed e) (say (Logged (Run_failed e)) s)))"

definition exit_running :: "program_os \<Rightarrow> program \<Rightarrow> nat option \<times> program" where
  "exit_running os s =
     (case ExitRunning (po_control os) (pg_control s) of
        (None, ctl) \<Rightarrow> (Some 0, s\<lparr>pg_control := ctl\<rparr>)
      | (Some e, ctl) \<Rightarrow> (Some 1, say (Logged (Control_failed e)) (s\<lparr>pg_control := ctl\<rparr>)))"

definition show_keys_or :: "program_os \<Rightarrow> (program \<Rightarrow> nat option \<times> program) \<Rightarrow> program \<Rightarrow> nat option \<times> program" where
  "show_keys_or os go_on s =
     (case ShowRunningKeys (po_control os) (pg_control s) of
        ((shown, failed), ctl) \<Rightarrow>
          let s = s\<lparr>pg_control := ctl\<rparr> in
          (case failed of
             Some e \<Rightarrow> (Some 1, ShowError (Control_failed e) s)
           | None \<Rightarrow> if shown then (Some 0, s) else go_on s))"

definition main :: "'h \<Rightarrow> program_os \<Rightarrow> gostr list \<Rightarrow> program \<Rightarrow> nat option \<times> program" where
  "main defaultHandler os args s =
     (let s = s\<lparr>pg_console := PrepareConsole (po_console os) (pg_console s)\<rparr> in
      case parse_flags default_flags args of
        Inl e \<Rightarrow> (Some (if e = Help_wanted then 0 else 2), s)
      | Inr f \<Rightarrow>
          if fl_version f then (Some 0, say Version_printed s)
          else if fl_exit f then exit_running os s
          else if fl_show_keys f then show_keys_or os (start_agent defaultHandler os f) s
          else start_agent defaultHandler os f s)"

section \<open>What it leaves behind\<close>

text \<open>
  A message sent is for this user's copy of this executable, at most one of each kind is
  sent, and no handle stays open.
\<close>

definition polite :: "program_os \<Rightarrow> program \<Rightarrow> program \<Rightarrow> bool" where
  "polite os s s' \<longleftrightarrow> ct_handles (pg_control s') = ct_handles (pg_control s)
     \<and> (\<exists>sent. ct_posted (pg_control s') = ct_posted (pg_control s) @ sent
          \<and> (\<forall>(hwnd, msg) \<in> set sent. \<exists>h. own_copy (po_control os) hwnd h))"

lemma polite_refl [simp]: "polite os s s"
  by (simp add: polite_def)

lemma polite_trans: "polite os s t \<Longrightarrow> polite os t u \<Longrightarrow> polite os s u"
  unfolding polite_def by (auto simp: ball_Un)

lemma polite_same: "pg_control s' = pg_control s \<Longrightarrow> polite os s s'"
  by (simp add: polite_def)

lemma polite_careful:
  "careful (po_control os) msg (pg_control s) c \<Longrightarrow> pg_control s' = c \<Longrightarrow> polite os s s'"
  unfolding polite_def careful_def by auto

lemma say_sel [simp]:
  "pg_console (say x s) = pg_console s" "pg_control (say x s) = pg_control s"
  "pg_events (say x s) = pg_events s" "pg_output (say x s) = pg_output s @ [x]"
  by (simp_all add: say_def)

lemma ShowError_eq: "ShowError e s = say (Box e) s"
  by (simp add: ShowError_def)

text \<open>\<open>run_program\<close> by its parts.\<close>

lemma run_program_parts:
  obtains a where
    "fst (run_program h os p s) = fst (fst (Run h ((po_run os)\<lparr>ro_show_running := a\<rparr>) p))"
    "pg_events (snd (run_program h os p s)) = pg_events s @ snd (fst (Run h ((po_run os)\<lparr>ro_show_running := a\<rparr>) p))"
    "polite os s (snd (run_program h os p s))"
    "pg_console (snd (run_program h os p s)) = snd (FixConsoleIfNeeded (po_console os) (pg_console s))"
    "pg_output (snd (run_program h os p s)) = pg_output s @
      (case fst (FixConsoleIfNeeded (po_console os) (pg_console s)) of None \<Rightarrow> []
       | Some e \<Rightarrow> [Logged (Console_failed e)])"
proof -
  let ?r = "ShowRunningKeys (po_control os) (pg_control s)"
  let ?os = "(po_run os)\<lparr>ro_show_running := (fst (fst ?r), snd (fst ?r) \<noteq> None)\<rparr>"
  have ctl: "pg_control (case e of None \<Rightarrow> s | Some e \<Rightarrow> say (f e) s) = pg_control s" for e :: "u32 option" and f
    by (cases e) simp_all
  have "polite os s (snd (run_program h os p s))"
  proof (cases "Ask_running_copy \<in> set (snd (fst (Run h ?os p)))")
    case True
    show ?thesis
      by (rule polite_careful [OF ShowRunningKeys_careful])
        (use True in \<open>simp add: run_program_def Let_def split_def ctl\<close>)
  next
    case False
    show ?thesis
      by (rule polite_same) (use False in \<open>simp add: run_program_def Let_def split_def ctl\<close>)
  qed
  then show ?thesis
    by (intro that [of "(fst (fst ?r), snd (fst ?r) \<noteq> None)"]) (simp_all add: run_program_def Let_def split_def ctl split: option.split)
qed

text \<open>An error that ends \<open>main\<close>: not the console's, which \<open>Run\<close> only logs before it goes on.\<close>

definition complaint :: "utterance \<Rightarrow> bool" where
  "complaint x \<longleftrightarrow> (\<exists>e. (x = Logged e \<or> x = Box e) \<and> (\<forall>n. e \<noteq> Console_failed n))"

lemma complaint_simps [simp]:
  "\<not> complaint Version_printed" "\<not> complaint (Logged (Console_failed n))"
  "complaint (Logged (Control_failed c))" "complaint (Logged (Run_failed r))"
  "complaint (Box (Control_failed c))" "complaint (Box (Run_failed r))"
  by (auto simp: complaint_def)

text \<open>
  What each way through \<open>main\<close> keeps to: it is polite; when it has ended nothing is held; the
  exit code is 1 exactly when it has logged or shown an error other than the console's; the console is attached at most once.
\<close>

definition orderly :: "program_os \<Rightarrow> program \<Rightarrow> nat option \<times> program \<Rightarrow> bool" where
  "orderly os s r \<longleftrightarrow> polite os s (snd r)
     \<and> (fst r \<noteq> None \<longrightarrow> replay [] (pg_events (snd r)) = Some [])
     \<and> (fst r = Some 1 \<longleftrightarrow> list_ex complaint (pg_output (snd r)))
     \<and> cs_done (pg_console (snd r)) \<and> cs_attached (pg_console (snd r)) = cs_attached (pg_console s)"

definition quiet :: "program \<Rightarrow> bool" where
  "quiet s \<longleftrightarrow> cs_done (pg_console s) \<and> pg_events s = [] \<and> pg_output s = []"

lemma start_agent_orderly:
  assumes "quiet s"
  shows "orderly os s (start_agent h os f s)"
proof -
  let ?p = "(NewDefaultHandler h (fl_sshpipe f) (\<not> fl_no_pageant_pipe f))\<lparr>ShowKeysOnStart := fl_show_keys f\<rparr>"
  let ?r = "run_program h os ?p s" and ?os = "\<lambda>a. (po_run os)\<lparr>ro_show_running := a\<rparr>"
  obtain a where r: "fst ?r = fst (fst (Run h (?os a) ?p))"
    "pg_events (snd ?r) = pg_events s @ snd (fst (Run h (?os a) ?p))" "polite os s (snd ?r)"
    "pg_console (snd ?r) = snd (FixConsoleIfNeeded (po_console os) (pg_console s))"
    "pg_output (snd ?r) = pg_output s @
      (case fst (FixConsoleIfNeeded (po_console os) (pg_console s)) of None \<Rightarrow> []
       | Some e \<Rightarrow> [Logged (Console_failed e)])"
    by (rule run_program_parts)
  have console: "pg_console (snd ?r) = pg_console s"
    using r(4) FixConsole_attached(3) assms by (simp add: quiet_def)
  have calm: "\<not> list_ex complaint (pg_output (snd ?r))"
    using r(5) assms by (simp add: quiet_def split: option.split)
  have balanced: "replay [] (pg_events (snd ?r)) = Some []" if "fst ?r \<noteq> None"
    using Run_balanced [of h "?os a" ?p] r(1,2) that assms by (simp add: quiet_def)
  have polite_say: "polite os s (say x s')" if "polite os s s'" for x s'
    using that by (simp add: polite_def)
  obtain result s' where r': "?r = (result, s')" by (cases ?r)
  show ?thesis
  proof (cases result)
    case None
    then show ?thesis
      using r(3) console calm assms r' by (simp add: start_agent_def orderly_def quiet_def)
  next
    case (Some e)
    then show ?thesis
      using r(3) console calm balanced assms r'
      by (cases e) (simp_all add: start_agent_def orderly_def quiet_def ShowError_eq polite_say)
  qed
qed

lemma exit_running_orderly:
  assumes "quiet s"
  shows "orderly os s (exit_running os s)"
proof -
  have "polite os s (snd (exit_running os s))"
    by (rule polite_careful [OF ExitRunning_careful])
      (simp add: exit_running_def split: prod.split option.split)
  with assms show ?thesis
    by (auto simp: orderly_def quiet_def exit_running_def split: prod.splits option.splits)
qed

lemma show_keys_orderly:
  assumes "quiet s" "\<And>s. quiet s \<Longrightarrow> orderly os s (go_on s)"
  shows "orderly os s (show_keys_or os go_on s)"
proof -
  obtain shown failed ctl where r: "ShowRunningKeys (po_control os) (pg_control s) = ((shown, failed), ctl)"
    by (metis prod.exhaust)
  let ?s = "s\<lparr>pg_control := ctl\<rparr>"
  have p: "polite os s ?s"
    using ShowRunningKeys_careful [of "po_control os" "pg_control s"] by (intro polite_careful) (auto simp: r)
  have q: "quiet ?s" using assms(1) by (simp add: quiet_def)
  show ?thesis
  proof (cases failed)
    case None
    have "orderly os s (go_on ?s)"
      using assms(2) [OF q] p polite_trans [OF p] by (simp add: orderly_def)
    with None p assms(1) show ?thesis
      by (cases shown) (simp_all add: show_keys_or_def r orderly_def quiet_def)
  next
    case (Some e)
    have "polite os s (say (Box (Control_failed e)) ?s)" using p by (simp add: polite_def)
    with Some assms(1) show ?thesis
      by (simp add: show_keys_or_def r orderly_def quiet_def ShowError_eq)
  qed
qed

lemma main_orderly:
  assumes "pg_events s = []" "pg_output s = []"
  shows "orderly os (s\<lparr>pg_console := PrepareConsole (po_console os) (pg_console s)\<rparr>) (main h os args s)"
proof -
  let ?s = "s\<lparr>pg_console := PrepareConsole (po_console os) (pg_console s)\<rparr>"
  have q: "quiet ?s" using assms FixConsole_attached(2) by (simp add: quiet_def PrepareConsole_def)
  have here: "orderly os ?s (Some 0, ?s)" "orderly os ?s (Some 2, ?s)"
    "orderly os ?s (Some 0, say Version_printed ?s)"
    using q by (simp_all add: orderly_def quiet_def polite_def)
  have keys: "orderly os ?s (show_keys_or os (start_agent h os f) ?s)" for f
    by (rule show_keys_orderly [OF q start_agent_orderly])
  show ?thesis
    using here keys start_agent_orderly [OF q] exit_running_orderly [OF q]
    by (auto simp: main_def Let_def split: sum.split)
qed

lemma start_agent_waits:
  assumes "\<And>a p. pageantPipe p = (\<not> fl_no_pageant_pipe f) \<Longrightarrow>
    fst (fst (Run h ((po_run os)\<lparr>ro_show_running := a\<rparr>) p)) = None"
  shows "fst (start_agent h os f s) = None"
proof -
  let ?p = "(NewDefaultHandler h (fl_sshpipe f) (\<not> fl_no_pageant_pipe f))\<lparr>ShowKeysOnStart := fl_show_keys f\<rparr>"
  have "fst (run_program h os ?p s) = None"
    by (rule run_program_parts [of h os ?p s]) (simp add: assms NewDefaultHandler_def New_def)
  then obtain t where "run_program h os ?p s = (None, t)" by (metis prod.collapse)
  then show ?thesis by (simp add: start_agent_def)
qed

text \<open>No exit code: the agent serves, and this is why.\<close>

lemma start_agent_serves:
  assumes "fst (start_agent h os f s) = None" "pg_events s = []"
  shows "\<exists>opened. replay [] (pg_events (snd (start_agent h os f s))) =
    Some (serving (\<not> fl_no_pageant_pipe f) @ (if opened then [Single_instance_mutex] else []))"
proof -
  let ?p = "(NewDefaultHandler h (fl_sshpipe f) (\<not> fl_no_pageant_pipe f))\<lparr>ShowKeysOnStart := fl_show_keys f\<rparr>"
  let ?r = "run_program h os ?p s" and ?os = "\<lambda>a. (po_run os)\<lparr>ro_show_running := a\<rparr>"
  obtain a where r: "fst ?r = fst (fst (Run h (?os a) ?p))"
    "pg_events (snd ?r) = pg_events s @ snd (fst (Run h (?os a) ?p))"
    by (rule run_program_parts)
  have "snd (start_agent h os f s) = snd ?r" "fst ?r = None"
    using assms(1) by (auto simp: start_agent_def Let_def split: prod.splits option.splits)
  then have "fst (fst (Run h (?os a) ?p)) = None" by (simp only: r(1))
  from Run_serving [OF this] obtain opened where
    "replay [] (snd (fst (Run h (?os a) ?p))) =
      Some (serving (pageantPipe ?p) @ (if opened then [Single_instance_mutex] else []))" by blast
  moreover have "pageantPipe ?p = (\<not> fl_no_pageant_pipe f)" by (simp add: NewDefaultHandler_def New_def)
  ultimately show ?thesis
    unfolding \<open>snd (start_agent h os f s) = snd ?r\<close> r(2) assms(2) by auto
qed

lemma main_serves:
  assumes "fst (main h os args s) = None" "pg_events s = []"
  obtains f opened where "parse_flags default_flags args = Inr f" "\<not> fl_version f" "\<not> fl_exit f"
    "fl_show_keys f \<Longrightarrow> fst (ShowRunningKeys (po_control os) (pg_control s)) = (False, None)"
    "replay [] (pg_events (snd (main h os args s))) =
      Some (serving (\<not> fl_no_pageant_pipe f) @ (if opened then [Single_instance_mutex] else []))"
proof -
  let ?s = "s\<lparr>pg_console := PrepareConsole (po_console os) (pg_console s)\<rparr>"
  obtain f where f: "parse_flags default_flags args = Inr f"
    using assms(1) by (cases "parse_flags default_flags args") (simp_all add: main_def Let_def)
  have exit: "fst (exit_running os t) \<noteq> None" for t
    by (simp add: exit_running_def split: prod.split option.split)
  from assms(1) f exit have nv: "\<not> fl_version f" "\<not> fl_exit f"
    by (auto simp: main_def Let_def simp del: not_None_eq split: if_splits)
  have "\<exists>t. main h os args s = start_agent h os f t \<and> pg_events t = []
    \<and> (fl_show_keys f \<longrightarrow> fst (ShowRunningKeys (po_control os) (pg_control s)) = (False, None))"
    using assms f nv by (auto simp: main_def Let_def show_keys_or_def split: if_splits prod.splits option.splits bool.splits)
  then obtain t where t: "main h os args s = start_agent h os f t" "pg_events t = []"
    "fl_show_keys f \<Longrightarrow> fst (ShowRunningKeys (po_control os) (pg_control s)) = (False, None)" by blast
  with start_agent_serves [of h os f t] assms(1) f nv that show ?thesis by metis
qed

end
