(* ===== verification/WinLayout.thy ===== *)
theory WinLayout
  imports Prelude
begin

text \<open>
  The memory layout of the structures handed to Windows (\<^verbatim>\<open>internal/win/defs.go\<close>,
  \<^verbatim>\<open>pageant/desktop_windows.go\<close>, \<^verbatim>\<open>pageant/run_windows.go\<close>), by Go's rules: each field at the
  next multiple of its alignment, the size rounded up to the largest alignment. \<open>ptr\<close> is the
  size of a pointer, 8 on amd64 and arm64 and 4 on 386.
\<close>

section \<open>Layout\<close>

datatype field = U16s nat | U32 | U32s nat | Ptr

fun field_size :: "nat \<Rightarrow> field \<Rightarrow> nat" where
  "field_size ptr (U16s n) = 2 * n"
| "field_size ptr U32 = 4"
| "field_size ptr (U32s n) = 4 * n"
| "field_size ptr Ptr = ptr"

fun field_align :: "nat \<Rightarrow> field \<Rightarrow> nat" where
  "field_align ptr (U16s n) = 2"
| "field_align ptr U32 = 4"
| "field_align ptr (U32s n) = 4"
| "field_align ptr Ptr = ptr"

definition round_up :: "nat \<Rightarrow> nat \<Rightarrow> nat" where
  "round_up n a = (n + a - 1) div a * a"

text \<open>The offset of each field, from a starting offset, and the end of the last.\<close>

fun offsets :: "nat \<Rightarrow> nat \<Rightarrow> field list \<Rightarrow> (nat \<times> field) list" where
  "offsets ptr at [] = []"
| "offsets ptr at (f # fs) =
     (let o1 = round_up at (field_align ptr f) in (o1, f) # offsets ptr (o1 + field_size ptr f) fs)"

fun struct_end :: "nat \<Rightarrow> nat \<Rightarrow> field list \<Rightarrow> nat" where
  "struct_end ptr at [] = at"
| "struct_end ptr at (f # fs) = struct_end ptr (round_up at (field_align ptr f) + field_size ptr f) fs"

definition sizeof :: "nat \<Rightarrow> field list \<Rightarrow> nat" where
  "sizeof ptr fs = round_up (struct_end ptr 0 fs) (fold max (map (field_align ptr) fs) 1)"

lemma round_up_mult: "0 < a \<Longrightarrow> a dvd round_up n a \<and> n \<le> round_up n a \<and> round_up n a < n + a"
proof -
  assume a: "0 < a"
  have "(n + a - 1) div a * a + (n + a - 1) mod a = n + a - 1" by (rule div_mult_mod_eq)
  moreover have "(n + a - 1) mod a < a" using a by simp
  ultimately show ?thesis unfolding round_up_def using a by (intro conjI) (simp, linarith+)
qed

text \<open>Fields are aligned and do not overlap, whatever the structure.\<close>

lemma offsets_aligned:
  assumes "0 < ptr" "(off, f) \<in> set (offsets ptr at fs)"
  shows "field_align ptr f dvd off \<and> at \<le> off"
  using assms(2)
proof (induction fs arbitrary: at)
  case (Cons g fs)
  have g: "0 < field_align ptr g" using assms(1) by (cases g) simp_all
  note r = round_up_mult [OF g, of at]
  from Cons.prems consider "off = round_up at (field_align ptr g)" "f = g"
    | "(off, f) \<in> set (offsets ptr (round_up at (field_align ptr g) + field_size ptr g) fs)"
    by (auto simp: Let_def)
  then show ?case
  proof cases
    case 2
    from Cons.IH [OF this] r show ?thesis by linarith
  qed (use r in simp)
qed simp

lemma offsets_disjoint:
  assumes "0 < ptr" "offsets ptr at fs = xs @ (o1, f) # (o2, g) # ys"
  shows "o1 + field_size ptr f \<le> o2"
  using assms(2)
proof (induction fs arbitrary: at xs)
  case (Cons h fs)
  show ?case
  proof (cases xs)
    case Nil
    with Cons.prems have "o1 = round_up at (field_align ptr h)" "f = h"
      and rest: "offsets ptr (o1 + field_size ptr f) fs = (o2, g) # ys"
      by (auto simp: Let_def)
    have "(o2, g) \<in> set (offsets ptr (o1 + field_size ptr f) fs)" using rest by simp
    from offsets_aligned [OF assms(1) this] show ?thesis by simp
  next
    case (Cons x xs')
    with Cons.prems show ?thesis using Cons.IH by (auto simp: Let_def)
  qed
qed simp

section \<open>The program's structures\<close>

definition POINT :: "field list" where "POINT = [U32s 2]"

definition MSG :: "field list" where
  "MSG = [Ptr, U32, Ptr, Ptr, U32] @ POINT @ [U32]"

definition WNDCLASSEX :: "field list" where
  "WNDCLASSEX = [U32, U32, Ptr, U32, U32, Ptr, Ptr, Ptr, Ptr, Ptr, Ptr, Ptr]"

definition copyDataLayout :: "field list" where
  "copyDataLayout = [Ptr, U32, Ptr]"

definition notifyIconData :: "field list" where
  "notifyIconData =
     [U32, Ptr, U32, U32, U32, Ptr, U16s 128, U32, U32, U16s 256, U32, U16s 64, U32, U32s 4, Ptr]"

definition uiRect :: "field list" where "uiRect = [U32s 4]"

definition uiMinMaxInfo :: "field list" where
  "uiMinMaxInfo = POINT @ POINT @ POINT @ POINT @ POINT"

definition uiListColumn :: "field list" where
  "uiListColumn = [U32, U32, U32, Ptr, U32, U32, U32, U32, U32, U32, U32]"

definition uiListItem :: "field list" where
  "uiListItem = [U32, U32, U32, U32, U32, Ptr, U32, U32, Ptr, U32, U32, U32, Ptr, Ptr, U32]"

lemmas struct_defs = POINT_def MSG_def WNDCLASSEX_def copyDataLayout_def notifyIconData_def uiRect_def
  uiMinMaxInfo_def uiListColumn_def uiListItem_def

text \<open>
  The sizes and the offsets Windows gives these structures, with 8-byte and with 4-byte
  pointers.
\<close>

lemma structures_match_windows:
  "map (sizeof 8) [MSG, WNDCLASSEX, copyDataLayout, notifyIconData, uiRect, uiMinMaxInfo, uiListColumn, uiListItem]
     = [48, 80, 24, 976, 16, 40, 56, 88]"
  "map (sizeof 4) [MSG, WNDCLASSEX, copyDataLayout, notifyIconData, uiRect, uiMinMaxInfo, uiListColumn, uiListItem]
     = [32, 48, 12, 956, 16, 40, 44, 60]"
  "map fst (offsets 8 0 notifyIconData)
     = [0, 8, 16, 20, 24, 32, 40, 296, 300, 304, 816, 820, 948, 952, 968]"
  by code_simp+

end
