(* ===== verification/Spec2Isabelle.thy ===== *)
theory Spec2Isabelle
  imports PropsAgent PropsClient PropsBridge PropsDesktop Phases IpcThread Program WinLayout
begin

text \<open>
  A verification development of WinSSH-Pageant, a Windows program that lets PuTTY's clients
  use the OpenSSH agent: it serves Pageant's two protocols (a named pipe and the legacy
  \<open>WM_COPYDATA\<close> message with shared memory), forwards each request over a connection to the
  agent's pipe, and shows signatures and keys in a tray icon and a key window.

  How the parts work together. A transport reads a request frame from a client, identifies
  the client's process and calls \<open>queryUsing\<close>; that validates the frame, hands it to a
  handler (the built-in one is a \<open>Session\<close> to the agent), validates the reply and raises a
  notice when a key signs. The notice and the results of key listings reach the UI thread
  through bounded channels with one posted message each. \<open>Run\<close> starts all this once per user
  and takes it down in reverse.

  Theories and sources (under \<^verbatim>\<open>src/\<close>):

    \<^item> \<^theory_text>\<open>Prelude\<close>: the types (words, Go strings as byte lists), big- and little-endian
      numbers, shared lemmas. \<^theory_text>\<open>Codec\<close>: the locale of prefix codecs (encoders whose decoders
      return the rest) and its instances. \<^theory_text>\<open>Machine\<close>: reachable states and the locales
      \<open>machine_invariant\<close>, \<open>monotone_flag\<close>, \<open>ranked_phase\<close> and \<open>simulation\<close>, interpreted by
      the machines below.
    \<^item> The Go library as far as the program uses it: \<^theory_text>\<open>Text\<close> (UTF-8), \<^theory_text>\<open>GoStrings\<close>
      (\<open>ToLower\<close>, \<open>EqualFold\<close>, \<open>FieldsFunc\<close>, \<open>ParseUint\<close>, ...), \<^theory_text>\<open>Digest\<close> (SHA-256, Base64,
      hexadecimal), \<^theory_text>\<open>NetAddr\<close> (\<open>ParseIP\<close>, \<open>IP.String\<close>, \<open>JoinHostPort\<close>), \<^theory_text>\<open>Conn\<close> (a connection
      as the script of what its reads and writes return; \<open>ReadFull\<close>; the write loop).
    \<^item> \<^theory_text>\<open>Wire\<close>, \<^theory_text>\<open>Session\<close>, \<^theory_text>\<open>SessionConc\<close>: \<^verbatim>\<open>openssh/agent.go\<close>. Frames and validation;
      \<open>exchange\<close>, \<open>Session\<close>, \<open>QueryAgent\<close> and \<open>ListKeys\<close> as functions on the connection, with a
      record of the session's dials and of the connections it closed; the same session as a
      machine whose steps are the sections under its mutexes, and whose runs are labelled with
      the dials and exchanges they make.
    \<^item> \<^theory_text>\<open>Keys\<close>, \<^theory_text>\<open>Sanitize\<close>: \<^verbatim>\<open>openssh/keys.go\<close> and the text functions of
      \<^verbatim>\<open>pageant/desktop_windows.go\<close>. Parsers, with generators they are exact for; cleaned text.
    \<^item> \<^theory_text>\<open>ClientTarget\<close>, \<^theory_text>\<open>TcpTable\<close>, \<^theory_text>\<open>ClientIdentity\<close>, \<^theory_text>\<open>SigningNotice\<close>:
      \<^verbatim>\<open>pageant/client_windows.go\<close>; \<^theory_text>\<open>HostSafety\<close> shows that a host read from the network
      passes the check for typed ones; \<^theory_text>\<open>Security\<close>: \<^verbatim>\<open>internal/security/security.go\<close>.
    \<^item> \<^theory_text>\<open>Bridge\<close>, \<^theory_text>\<open>CopyData\<close>, \<^theory_text>\<open>PipeServer\<close>, \<^theory_text>\<open>Clients\<close>, \<^theory_text>\<open>PipeName\<close>, \<^theory_text>\<open>Lifecycle\<close>,
      \<^theory_text>\<open>IpcThread\<close>: \<^verbatim>\<open>pageant/run_windows.go\<close>. \<open>queryUsing\<close> and its contract, the locale
      \<open>frame_service\<close>; the two transports; the server's tables as a machine that keeps the
      program's steps apart from those of its clients; the pipe's name; \<open>Run\<close> by what it
      acquires and releases, the channel that stops the legacy window's thread included; the legacy window's thread, its channels and the
      goroutine that stops it, as a machine.
    \<^item> \<^theory_text>\<open>Flags\<close>, \<^theory_text>\<open>Program\<close>: \<^verbatim>\<open>main.go\<close>. \<open>flag.Parse\<close> on the program's flags, and \<open>main\<close> over one
      state that joins the console, the running copy and \<open>Run\<close>.
    \<^item> \<^theory_text>\<open>KeyWindow\<close>, \<^theory_text>\<open>Desktop\<close>, \<^theory_text>\<open>DesktopQueue\<close>: \<^verbatim>\<open>pageant/desktop_windows.go\<close>. Each method
      transforms the \<open>desktop\<close> record, in which the native calls made so far, the posted
      messages, the running loaders and the calls of \<open>notify\<close> under way are fields of the
      model; the machine interleaves the UI thread with the workers, whose look at \<open>closed\<close>,
      send and \<open>PostMessage\<close> are steps of their own. The locale \<open>desktop_property\<close> carries
      the invariants of the queues through the UI thread's operations.
    \<^item> \<^theory_text>\<open>Control\<close>: \<^verbatim>\<open>pageant/control_windows.go\<close>; \<^theory_text>\<open>Options\<close>: \<^verbatim>\<open>pageant/pageant.go\<close>;
      \<^theory_text>\<open>WinLayout\<close>: the structures of \<^verbatim>\<open>internal/win/defs.go\<close> and the others handed to Windows;
      \<^theory_text>\<open>Console\<close>: \<^verbatim>\<open>internal/win/consoleoutput.go\<close>.
    \<^item> \<^theory_text>\<open>Forwarding\<close> composes pipe, bridge, session and agent, and agent, loader and window;
      \<^theory_text>\<open>Phases\<close> holds the abstract specifications of the session and the loader with their
      simulations. The properties are in \<^theory_text>\<open>PropsAgent\<close>, \<^theory_text>\<open>PropsClient\<close>, \<^theory_text>\<open>PropsBridge\<close>,
      \<^theory_text>\<open>PropsDesktop\<close> and, for those that span components, here.

  What the code relies on and cannot be read here is an argument: Windows calls are fields of
  records (\<open>client_os\<close>, \<open>copydata_os\<close>, \<open>ui_os\<close>, \<open>control_os\<close>, ...), dialling a pipe, \<open>url.Parse\<close>,
  \<open>DecomposeCommandLine\<close> and the registry are functions; the theorems hold for all of them
  unless a hypothesis names what is documented (a written mapping keeps its size,
  \<open>PostMessage\<close> succeeds). Handles, views and posted messages are lists in the state, so a leak
  or a double close is visible.

  Bounds. The loops of the program end because each turn consumes input: the reading and
  writing loops are \<open>function\<close>s with a measure on the script or the buffer, so no fuel is
  needed. The table reader tries three times, as the code does. The rank of the pipe server
  (at most 9 per client and 3 for the accepting loop) bounds shutdown by 291 steps; that of
  the legacy thread is at most 7 and the messages waiting. \<open>root_bits\<close> decides 40 bits, more
  than the roots of the constants have.

  Not modelled, and why: the wrappers of \<^verbatim>\<open>internal/win/user32.go\<close> and \<^verbatim>\<open>kernel32.go\<close> (one system
  call each, their results are arguments); \<^verbatim>\<open>pageant/run_others.go\<close> (constant errors on other
  systems); the wording of errors, which are values of error datatypes wherever they are
  logged or shown; the reuse of a destroyed window's number; times, of which only the setting
  of a deadline and its failure appear; the memory model below the mutexes; and messages
  Windows may send while a native call of the key window runs, except \<open>WM_NCDESTROY\<close> during
  \<open>DestroyWindow\<close> and the menu's own loop.
\<close>

section \<open>The whole way\<close>

text \<open>
  An agent that answers the request for the identities in three pieces, and a client that
  asks it, in two, and closes.
\<close>

definition answering_agent :: conn where
  "answering_agent = \<lparr>rd_script = [([0, 0], None), ([0, 5, 12], None), ([0, 0, 0, 0], None)],
     wr_script = [(5, None)], rd_deadlines = [], wr_deadlines = [], sent = []\<rparr>"

definition asking_client :: conn where
  "asking_client = \<lparr>rd_script = [([0], None), ([0, 0, 1, 11], None)],
     wr_script = [(9, None)], rd_deadlines = [], wr_deadlines = [], sent = []\<rparr>"

definition no_keys_reply :: "byte list" where
  "no_keys_reply = [0, 0, 0, 5, 12, 0, 0, 0, 0]"

definition session_bridge :: "session bridge" where
  "session_bridge = \<lparr>br_handler = NewSession [], br_handles = [], br_notices = []\<rparr>"

lemma answering_agent_answers: "answers answering_agent [example_request] [no_keys_reply]"
  by (simp add: answers_def answering_agent_def example_request_def no_keys_reply_def clean_reads_def
      deadlines_work_def stream_def ValidateResponse_def validateFrame_def AgentMaxResponseLength_def
      SSH_AGENT_FAIL_def u32_of_def)

text \<open>
  C1: end to end. A client whose complete, valid requests arrive over the pipe, in pieces of
  any size, and who takes what is sent to him, gets exactly the replies of the agent, in
  order, when the agent answers each request with a valid frame, in pieces of any size; the
  agent gets exactly the client's requests, in order, on one connection; and the session is
  closed when the client is gone.
\<close>

theorem client_gets_agents_replies:
  assumes "localPipeName pipeName" "dial pipeName = Inr a" "answers a requests replies"
    and "list_all (\<lambda>r. ValidateRequest r = None) requests"
    and "clean_reads c" "deadlines_work c" "stream c = concat requests @ rest" "requests_of rest = []"
    and "wr_script c = map (\<lambda>r. (int (length r), None)) replies @ script"
  shows "(case pipeListen_default os d dial pipeName False fd c b of (e, c', b') \<Rightarrow>
      sent c' = sent c @ concat replies \<and> session_closed (br_handler b'))
    \<and> (case serve_client os d (Query dial) fd c (b\<lparr>br_handler := NewSession pipeName\<rparr>) of (e, c', b') \<Rightarrow>
      \<exists>a'. available dial (br_handler b') a' \<and> sent a' = sent a @ concat requests)"
proof -
  let ?b = "b\<lparr>br_handler := NewSession pipeName\<rparr>"
  have av: "available dial (br_handler ?b) a"
    using assms(1,2) by (simp add: available_def NewSession_def)
  obtain e c' b' a' where "serve_client os d (Query dial) fd c ?b = (e, c', b')"
      "sent c' = sent c @ concat replies" "available dial (br_handler b') a'" "sent a' = sent a @ concat requests"
    using pipe_forwards [OF av assms(4,3,5-9)] by blast
  then show ?thesis by (auto simp: pipeListen_default_def)
qed

theorem client_gets_agents_replies_witness:
  "case pipeListen_default example_os False (\<lambda>_. Inr answering_agent) example_pipe False None asking_client session_bridge of
     (e, c', b') \<Rightarrow> sent c' = no_keys_reply \<and> session_closed (br_handler b')"
proof -
  have "localPipeName example_pipe" by (rule example_pipe_local)
  moreover have "clean_reads asking_client" "deadlines_work asking_client"
    "stream asking_client = concat [example_request] @ []" "sent asking_client = []"
    "wr_script asking_client = map (\<lambda>r. (int (length r), None)) [no_keys_reply] @ []"
    by (simp_all add: asking_client_def clean_reads_def deadlines_work_def stream_def example_request_def
        no_keys_reply_def)
  moreover have "requests_of [] = []" by (simp add: requests_of.simps next_request_def)
  moreover have "list_all (\<lambda>r. ValidateRequest r = None) [example_request]" by (simp add: example_request_valid)
  ultimately show ?thesis
    using client_gets_agents_replies [of example_pipe "\<lambda>_. Inr answering_agent" answering_agent
        "[example_request]" "[no_keys_reply]" asking_client "[]" "[]" example_os False None session_bridge]
      answering_agent_answers
    by (simp add: split_def)
qed

text \<open>
  C15: the keys an agent lists reach the window. In any reachable state with the window open
  and its loader running, when the agent answers the loader's request with a well-formed
  list and the loader finishes undisturbed (a run of the desktop's machine), the result
  waits with its message, and dispatching that message leaves in the list
  view exactly one row for each of the agent's keys, in the agent's order: its type, its
  fingerprint and its comment.
\<close>

theorem agent_keys_reach_the_window:
  fixes tos :: "('a) tray_os_scheme" and wParam :: nat and lParam :: u32
  assumes "reach init_desktop (desktop_step True) d" "d_loaders d > 0" "\<not> d_closed d" "d_keyWindow d \<noteq> 0"
    and "ui_post_works os" "localPipeName (d_pipe d)" "dial (d_pipe d) = Inr a"
    and "list_all entry_ok es" "length (identities_payload es) \<le> 262144"
    and "answers a [[0, 0, 0, 1, agentRequestIdentities]] [frame_of (identities_payload es)]"
  shows "let d1 = loader_done os (ListKeys dial (d_pipe d)) d;
             d2 = snd (onMessage tos (d_hwnd d1) wmKeysReady wParam lParam d1)
         in (desktop_step True)\<^sup>*\<^sup>* d d1
            \<and> wmKeysReady \<in> set (d_posted d1) \<and> \<not> d_loadingKeys d2
            \<and> list_view (d_keyList d2) (d_calls d2) = map (key_row \<circ> key_of) es"
proof -
  have ok: "desktop_ok d" "queue_ok d"
    using desktop_machine.reach_inv [OF assms(1)] reliable_desktop.reach_inv [OF assms(1)] by blast+
  have "ListKeys dial (d_pipe d) = Inr (map key_of es)"
    using assms(6-10) by (rule ListKeys_lists)
  from loaded_keys_are_shown [OF ok assms(2-5) this, of tos wParam lParam]
    loader_done_run [OF _ ok(1) assms(2), of True os] assms(5)
  show ?thesis by (simp add: Let_def)
qed

theorem agent_keys_reach_the_window_witness:
  "\<not> d_loadingKeys (snd (onMessage (ui_os.extend good_ui \<lparr>ui_create_menu = True, ui_cursor = (0, 0), ui_track = (\<lambda>d. (d, 0))\<rparr>)
      (d_hwnd (loader_done good_ui (ListKeys (\<lambda>_. Inr answering_agent) (d_pipe loading_desktop)) loading_desktop))
      wmKeysReady 0 0
      (loader_done good_ui (ListKeys (\<lambda>_. Inr answering_agent) (d_pipe loading_desktop)) loading_desktop)))"
proof -
  have pipe: "d_pipe loading_desktop = example_pipe"
    using loading_desktop_core(1) by (simp add: core_def DefaultSSHAgentPipe_def example_pipe_def dot_pipe_def lit_def)
  have "frame_of (identities_payload []) = no_keys_reply"
    by (simp add: frame_of_def identities_payload_def no_keys_reply_def agentIdentitiesAnswer_def put_be32_def u32_of_def)
  then have "answers answering_agent [[0, 0, 0, 1, agentRequestIdentities]] [frame_of (identities_payload [])]"
    using answering_agent_answers by (simp add: example_request_def agentRequestIdentities_def)
  from agent_keys_reach_the_window [OF loading_desktop_reach _ _ _ _ _ _ _ _ this, of good_ui "\<lambda>_. Inr answering_agent"
      "ui_os.extend good_ui \<lparr>ui_create_menu = True, ui_cursor = (0, 0), ui_track = (\<lambda>d. (d, 0))\<rparr>" 0 0]
  show ?thesis
    using loading_desktop_core example_pipe_local
    by (simp add: core_def Let_def pipe good_ui_def identities_payload_def)
qed

text \<open>
  C11: a session lives once. Along every run of overlapping \<open>Query\<close> and \<open>Close\<close> calls its phase
  only grows: never connected before, connected, closed for good.
\<close>

theorem session_phase_grows:
  assumes "reach init_session session_step m" "session_step\<^sup>*\<^sup>* m m'"
  shows "session_phase_of m \<le> session_phase_of m'"
  using phases_increase [OF session_life.run_simulated [OF assms(2) session_machine.reach_inv [OF assms(1)]]] .

theorem session_phase_grows_witness:
  "\<exists>m m' :: session_sys. session_step\<^sup>*\<^sup>* m m' \<and> m \<noteq> m' \<and> session_phase_of m \<le> session_phase_of m'"
proof -
  define m where "m = \<lparr>sys_closed = False, sys_conn = None, query_at = Q_idle, pending = {},
     open_conns = {}, dials = 0, opened = 0\<rparr>"
  have r: "reach init_session session_step m" by (rule reach_init) (simp add: init_session_def m_def)
  have "session_step m ((take_conn m)\<lparr>pending := pending m \<union> set_option (sys_conn m)\<rparr>)" (is "session_step m ?m")
    by (rule close) (simp add: m_def)
  then have run: "session_step\<^sup>*\<^sup>* m ?m" by (rule r_into_rtranclp)
  have "m \<noteq> ?m" by (simp add: m_def take_conn_def)
  with run session_phase_grows [OF r run] show ?thesis by blast
qed



section \<open>The process\<close>

text \<open>
  A machine on which every step of \<open>Run\<close> succeeds and the UI thread has dispatched one
  message.
\<close>

definition example_run :: run_os where
  "example_run = \<lparr>ro_sid = Some (lit ''S-1-5-21''), ro_descriptor = (\<lambda>_. True),
     ro_mutex = (\<lambda>_. (True, Mutex_created)), ro_show_running = (False, False),
     ro_other_pageant = False, ro_listener = True, ro_register = (\<lambda>_. True),
     ro_create = (\<lambda>_. True), ro_desktop = True, ro_messages = [1]\<rparr>"

text \<open>
  C23: while \<open>Run\<close> serves, this process is the one that created the user's mutex, no other
  Pageant runs, and what it holds is exactly the mutex, the pipe listener if the pipe is
  enabled, the control window and its class, the desktop and the open channel that stops the
  legacy window's thread. However it ends, with or without an error and at whatever step,
  everything it acquired has been released, last acquired first; the channel is closed, which
  tells the thread to stop without waiting for it (that it then ends is C25).
\<close>

theorem run_holds_and_releases:
  assumes "fst (Run defaultHandler os p) = (result, trace)"
  shows "case result of
      Some _ \<Rightarrow> replay [] trace = Some []
    | None \<Rightarrow> (\<exists>sid opened. ro_sid os = Some sid \<and> ro_mutex os sid = (opened, Mutex_created)
        \<and> \<not> ro_other_pageant os
        \<and> replay [] trace = Some
            ([Stop_channel, Desktop_object, Window controlClassName, Window_class controlClassName]
             @ (if pageantPipe p then [Pipe_listener] else [])
             @ (if opened then [Single_instance_mutex] else [])))"
proof (cases result)
  case None
  with assms have waits: "fst (fst (Run defaultHandler os p)) = None" by simp
  obtain sid opened where holds: "ro_sid os = Some sid" "ro_mutex os sid = (opened, Mutex_created)"
      "replay [] trace = Some (serving (pageantPipe p) @ (if opened then [Single_instance_mutex] else []))"
    using Run_serving [OF waits] assms by auto
  have "\<not> ro_other_pageant os" using Run_waits_alone [OF waits] .
  with None holds show ?thesis by (auto simp: serving_def)
next
  case (Some r)
  with Run_balanced [of defaultHandler os p] assms show ?thesis by simp
qed

theorem run_holds_and_releases_witness:
  "replay [] (snd (fst (Run () example_run (New [] True None)))) = Some
     [Stop_channel, Desktop_object, Window controlClassName, Window_class controlClassName,
      Pipe_listener, Single_instance_mutex]"
proof -
  have "fst (fst (Run () example_run (New [] True None))) = None"
    by (simp add: Run_def run_instance_def run_agent_def run_windows_def run_threads_def run_loop_def
        run_config_def createWindow_def before_def deferred_def example_run_def New_def Let_def)
  then have eq: "fst (Run () example_run (New [] True None)) =
      (None, snd (fst (Run () example_run (New [] True None))))"
    by (metis prod.collapse)
  from run_holds_and_releases [OF eq] show ?thesis by (auto simp: example_run_def New_def)
qed

text \<open>
  C25: the legacy window lives and dies with its thread. The thread never blocks on
  reporting; \<open>Run\<close> serves only once it has reported its window; an ended thread leaves
  neither window nor class. And whatever messages other processes have sent so far: once
  \<open>Run\<close> has closed \<open>stopIPC\<close>, the thread and its goroutine run at most seven steps and one
  for each message already waiting, and stop only when both have ended and the window and
  its class are gone, provided \<open>PostMessage\<close> works.
\<close>

theorem legacy_thread_stops:
  assumes "reach init_ipc (ipc_any True) s"
  shows "(\<forall>ok. ipc_at s = I_reporting ok \<longrightarrow> ready_chan s = None)
    \<and> (run_at s = R_serving \<longrightarrow> ipc_at s \<notin> insert I_creating (range I_reporting))
    \<and> (ipc_at s = I_ended \<longrightarrow> \<not> window_there s \<and> \<not> class_there s)
    \<and> (stop_closed s \<longrightarrow>
        (\<forall>n t. (ipc_step True ^^ n) s t \<longrightarrow> n \<le> 7 + length (msg_queue s))
        \<and> (\<exists>t. (ipc_step True)\<^sup>*\<^sup>* s t \<and> (\<nexists>u. ipc_step True t u))
        \<and> (\<forall>t. (ipc_step True)\<^sup>*\<^sup>* s t \<longrightarrow> (\<nexists>u. ipc_step True t u) \<longrightarrow> legacy_gone t))"
proof -
  note inv = legacy.reach_inv [OF assms]
  have stopped: "n \<le> 7 + length (msg_queue s)" if "(ipc_step True ^^ n) s t" "stop_closed s" for n t
    using legacy_stop.run_bounded [OF that(1) inv that(2)] stop_rank_bound [OF inv that(2)] by simp
  have gone: "legacy_gone t" if "(ipc_step True)\<^sup>*\<^sup>* s t" "stop_closed s" "\<nexists>u. ipc_step True t u" for t
    using end_is_gone [OF legacy_stop.steps_inv [OF that(1) inv]
        legacy_stop.flag_steps [OF that(1,2)] that(3)] .
  have "ready_chan s = None" if "ipc_at s = I_reporting ok" for ok
    using inv that by (simp add: ipc_inv_def unreported_def)
  moreover have "ipc_at s \<notin> insert I_creating (range I_reporting)" if "run_at s = R_serving"
    using inv that by (auto simp: ipc_inv_def unreported_def)
  moreover have "\<not> window_there s \<and> \<not> class_there s" if "ipc_at s = I_ended"
    using inv that by (simp add: ipc_inv_def)
  ultimately show ?thesis
    using legacy_stop.reaches_end [OF inv] stopped gone by (intro conjI impI allI) simp_all
qed

text \<open>The window is up and waits for messages; \<open>Run\<close> has just returned.\<close>

definition stopped_ipc :: ipc where
  "stopped_ipc = \<lparr>run_at = R_returned, ipc_at = I_loop, stopper_at = S_waiting, ready_chan = None,
     stop_closed = True, done_closed = False, class_there = True, window_there = True,
     msg_queue = [], quit_flag = False\<rparr>"

lemma stopped_ipc_reach: "reach init_ipc (ipc_any reliable) stopped_ipc"
proof -
  let ?s = "stopped_ipc\<lparr>run_at := R_waiting, stop_closed := False, stopper_at := S_none\<rparr>"
  let ?i = "?s\<lparr>ipc_at := I_creating, class_there := False, window_there := False\<rparr>"
  have step: "reach init_ipc (ipc_any reliable) t"
    if "reach init_ipc (ipc_any reliable) s" "ipc_step reliable s u" "u = t" for s u t
    using that by (auto simp: ipc_any_def intro: reach_step)
  have "reach init_ipc (ipc_any reliable) ?i"
    by (rule reach_init) (simp add: init_ipc_def stopped_ipc_def)
  then have "reach init_ipc (ipc_any reliable) (?s\<lparr>ipc_at := I_reporting True\<rparr>)"
    by (rule step [OF _ create]) (simp_all add: stopped_ipc_def)
  then have "reach init_ipc (ipc_any reliable) (?s\<lparr>ipc_at := I_spawning, ready_chan := Some True\<rparr>)"
    by (rule step [OF _ report]) (simp_all add: stopped_ipc_def)
  then have "reach init_ipc (ipc_any reliable) (?s\<lparr>ipc_at := I_spawning, run_at := R_serving\<rparr>)"
    by (rule step [OF _ started]) (simp_all add: stopped_ipc_def)
  then have "reach init_ipc (ipc_any reliable) (?s\<lparr>stopper_at := S_waiting, run_at := R_serving\<rparr>)"
    by (rule step [OF _ spawn]) (simp_all add: stopped_ipc_def)
  then show ?thesis
    by (rule step [OF _ run_returns]) (simp_all add: stopped_ipc_def)
qed

theorem legacy_thread_stops_witness:
  "\<exists>t. (ipc_step True)\<^sup>*\<^sup>* stopped_ipc t \<and> legacy_gone t"
proof -
  have "stop_closed stopped_ipc" by (simp add: stopped_ipc_def)
  with legacy_thread_stops [OF stopped_ipc_reach] show ?thesis by blast
qed

text \<open>
  C26: \<open>-exit\<close> and \<open>-show-keys\<close> never reach another user's or another installation's process.
  A call posts at most one message, only to a window whose process runs as this user and
  from this executable; it leaves no handle open on any path; and \<open>ShowRunningKeys\<close> says the
  keys are shown exactly when it has posted the request.
\<close>

theorem running_copy_only:
  "ct_handles (snd (ExitRunning os s)) = ct_handles s
   \<and> (ct_posted (snd (ExitRunning os s)) = ct_posted s
      \<or> (\<exists>hwnd h. ct_posted (snd (ExitRunning os s)) = ct_posted s @ [(hwnd, WM_CLOSE)] \<and> own_copy os hwnd h))
   \<and> ct_handles (snd (ShowRunningKeys os s)) = ct_handles s
   \<and> (ct_posted (snd (ShowRunningKeys os s)) = ct_posted s
      \<or> (\<exists>hwnd h. ct_posted (snd (ShowRunningKeys os s)) = ct_posted s @ [(hwnd, showKeysMessage)]
            \<and> own_copy os hwnd h))
   \<and> (fst (fst (ShowRunningKeys os s)) \<longleftrightarrow> ct_posted (snd (ShowRunningKeys os s)) \<noteq> ct_posted s)"
  using ExitRunning_careful [of os s] ShowRunningKeys_careful [of os s] ShowRunningKeys_shown [of os s]
  unfolding careful_def by auto

text \<open>
  C24: the program as a whole. Whatever the arguments, the console, a running copy and the
  machine answer: \<open>main\<close> leaves no handle open and posts messages only to this user's copy of
  this executable; when it ends, everything \<open>Run\<close> acquired has been released, last first,
  and the exit code is 1 exactly when an error was logged or shown, other than the console's
  (\<open>Run\<close> logs that one and goes on); it never attaches a console twice. It serves only when the arguments ask neither for the version nor to stop
  a running copy and, when they ask for the keys, no running copy could be asked; then it
  holds exactly what an agent with the arguments' settings holds.
\<close>

theorem main_is_orderly:
  assumes "main defaultHandler os args s = (code, s')" "pg_events s = []" "pg_output s = []"
  shows "ct_handles (pg_control s') = ct_handles (pg_control s)
    \<and> (\<exists>msgs. ct_posted (pg_control s') = ct_posted (pg_control s) @ msgs
         \<and> (\<forall>(hwnd, msg) \<in> set msgs. \<exists>h. own_copy (po_control os) hwnd h))
    \<and> cs_attached (pg_console s') \<le> Suc (cs_attached (pg_console s))
    \<and> (code = Some 1 \<longleftrightarrow> list_ex complaint (pg_output s'))
    \<and> (case code of
        Some _ \<Rightarrow> replay [] (pg_events s') = Some []
      | None \<Rightarrow> (\<exists>f opened. parse_flags default_flags args = Inr f \<and> \<not> fl_version f \<and> \<not> fl_exit f
          \<and> (fl_show_keys f \<longrightarrow> fst (ShowRunningKeys (po_control os) (pg_control s)) = (False, None))
          \<and> replay [] (pg_events s') = Some (serving (\<not> fl_no_pageant_pipe f)
               @ (if opened then [Single_instance_mutex] else []))))"
proof -
  note o = main_orderly [OF assms(2,3), of os defaultHandler args, unfolded assms(1) orderly_def polite_def]
  have attached: "cs_attached (PrepareConsole (po_console os) (pg_console s)) \<le> Suc (cs_attached (pg_console s))"
    unfolding PrepareConsole_def by (rule FixConsole_attached(1))
  have serves: "\<exists>f opened. parse_flags default_flags args = Inr f \<and> \<not> fl_version f \<and> \<not> fl_exit f
      \<and> (fl_show_keys f \<longrightarrow> fst (ShowRunningKeys (po_control os) (pg_control s)) = (False, None))
      \<and> replay [] (pg_events s') = Some (serving (\<not> fl_no_pageant_pipe f)
           @ (if opened then [Single_instance_mutex] else []))" if "code = None"
    by (rule main_serves [of defaultHandler os args s]) (use assms(1,2) that in auto)
  show ?thesis
    using o attached serves by (cases code) auto
qed

definition example_program :: program_os where
  "example_program = \<lparr>po_console = \<lparr>co_attach = (True, 0), co_stdout = (\<lambda>_. None), co_stderr = (\<lambda>_. None), co_invalid = 1\<rparr>,
     po_control = client_os.extend example_os \<lparr>os_find_window = (\<lambda>_. 0), os_window_pid = (\<lambda>_. 0),
       os_executable = None, os_same_path = (=), os_post = (\<lambda>_ _. True), os_wait = (\<lambda>_. None)\<rparr>,
     po_run = example_run\<rparr>"

definition started_program :: program where
  "started_program = \<lparr>pg_console = fresh_console, pg_control = \<lparr>ct_handles = [], ct_posted = []\<rparr>,
     pg_events = [], pg_output = []\<rparr>"

theorem main_is_orderly_witness:
  "fst (main () example_program [lit ''-show-keys''] started_program) = None
   \<and> (\<exists>(f :: flags) opened. replay [] (pg_events (snd (main () example_program [lit ''-show-keys''] started_program)))
        = Some (serving (\<not> fl_no_pageant_pipe f) @ (if opened then [Single_instance_mutex] else [])))"
proof -
  have "parse_flags default_flags [lit ''-show-keys''] = Inr (default_flags\<lparr>fl_show_keys := True\<rparr>)"
    by (simp add: lit_def split_flag_def before_first_def bool_flag_def Let_def)
  moreover have "ShowRunningKeys (po_control example_program) s = ((False, None), s)" for s
    by (simp add: ShowRunningKeys_def example_program_def client_os.defs)
  moreover have "fst (start_agent () example_program (default_flags\<lparr>fl_show_keys := True\<rparr>) s) = None" for s
    by (rule start_agent_waits)
      (simp add: example_program_def example_run_def Run_def run_instance_def run_agent_def run_windows_def
        run_threads_def run_loop_def run_config_def createWindow_def before_def deferred_def Let_def)
  ultimately have none: "fst (main () example_program [lit ''-show-keys''] started_program) = None"
    by (simp add: main_def show_keys_or_def default_flags_def Let_def)
  obtain s' where m: "main () example_program [lit ''-show-keys''] started_program = (None, s')"
    using none by (metis prod.collapse)
  have "pg_events started_program = []" "pg_output started_program = []"
    by (simp_all add: started_program_def)
  from main_is_orderly [OF m this] show ?thesis
    unfolding m fst_conv snd_conv option.case by blast
qed

section \<open>The pipe's name and the structures\<close>

text \<open>
  C35: Pageant's pipe is private. A listener comes up exactly when these succeed, and it is
  the one \<open>ListenPipe\<close> opens for this name and this descriptor. The name: \<open>\\.\pipe\pageant.\<close>,
  the part of the user name after the last backslash (the account, not the domain), a dot,
  and the 64 hexadecimal digits of the SHA-256 of what \<open>CryptProtectMemory\<close> makes of
  \<open>Pageant\<close> and nine zero bytes. The descriptor: \<open>D:P(A;;GA;;;SID)\<close>, access for the SID of
  this process's user and nobody else.
\<close>

theorem pageant_pipe_is_private:
  "(newPageantListener os = Some l \<longleftrightarrow>
     (\<exists>username account data user.
        os_username os = Some username
        \<and> 92 \<notin> set account \<and> (username = account \<or> (\<exists>domain. username = domain @ 92 # account))
        \<and> os_protect os (lit ''Pageant'' @ replicate 9 0) = Some data
        \<and> GetUserSID os = Inr user
        \<and> os_listen os
            ([92, 92, 46, 92] @ lit ''pipe'' @ [92] @ lit ''pageant.'' @ account @ lit ''.'' @ hex_encode (sha256 data))
            (lit ''D:P(A;;GA;;;'' @ os_sid_text os user @ lit '')'') = Some l))
   \<and> length (hex_encode (sha256 bytes)) = 64 \<and> 92 \<notin> set (hex_encode (sha256 bytes))"
  using newPageantListener_iff [of os l] hex_encode_no_backslash [of "sha256 bytes"] by simp

definition example_listener :: "gostr listener_os" where
  "example_listener = \<lparr>os_process_user = Some (Some [1, 5]), os_current_process = 99,
     os_security_info = (\<lambda>_. None), os_sid_valid = (\<lambda>_. True), os_sid_copy = Some,
     os_username = Some ([68, 92] @ lit ''me''), os_protect = Some, os_sid_text = (\<lambda>_. lit ''S-1-5''),
     os_listen = (\<lambda>name sd. Some sd)\<rparr>"

theorem pageant_pipe_is_private_witness:
  "newPageantListener example_listener = Some (lit ''D:P(A;;GA;;;S-1-5)'')"
proof -
  have f: "os_username example_listener = Some ([68] @ 92 # lit ''me'')" "92 \<notin> set (lit ''me'')"
    "os_protect example_listener x = Some x" "GetUserSID example_listener = Inr [1, 5]"
    "os_listen example_listener n d = Some d" "os_sid_text example_listener u = lit ''S-1-5''" for x n d u
    by (simp_all add: example_listener_def GetUserSID_def copyValidSID_def lit_def)
  have d: "lit ''D:P(A;;GA;;;'' @ lit ''S-1-5'' @ lit '')'' = lit ''D:P(A;;GA;;;S-1-5)''"
    by (simp add: lit_def)
  show ?thesis
    by (rule iffD2 [OF conjunct1 [OF pageant_pipe_is_private]], rule exI [of _ "[68] @ 92 # lit ''me''"],
        rule exI [of _ "lit ''me''"], rule exI [of _ "lit ''Pageant'' @ replicate 9 0"], rule exI [of _ "[1, 5]"])
      (use f d in auto)
qed

end
